theory Spec2Isabelle
  imports Complex_Main "HOL-Library.Word"
begin

unbundle bit_operations_syntax

section \<open>Bytes, big numbers and errors\<close>

text \<open>
  The SDK is TypeScript. A \<^verbatim>\<open>Uint8Array\<close> or \<^verbatim>\<open>Buffer\<close> is a list of
  8-bit words; a \<^verbatim>\<open>BN\<close> (bn.js, sign and magnitude of unbounded size) is an
  \<^typ>\<open>int\<close>; a JavaScript \<^verbatim>\<open>number\<close> is a \<^typ>\<open>real\<close>, that is, IEEE
  doubles are idealised as exact reals (all amounts the theorems speak about are whole
  numbers below \<open>2^53\<close>, which doubles represent exactly). Every \<^verbatim>\<open>throw\<close> and
  every failed library assertion is a value \<open>Inl e\<close> of the result type.
\<close>

type_synonym byte = "8 word"

datatype error =
    BNAssertion          \<comment> \<open>an \<^verbatim>\<open>assert\<close> inside bn.js failed\<close>
  | RangeError           \<comment> \<open>\<^verbatim>\<open>Buffer.writeUInt32LE\<close> out of range\<close>
  | InvalidPublicKey     \<comment> \<open>\<^verbatim>\<open>new PublicKey(string)\<close> rejected the string\<close>
  | TypeError            \<comment> \<open>a property of \<^verbatim>\<open>undefined\<close> was read, or a non-buffer was concatenated\<close>
  | EncryptionKeyNotSet
  | InvalidKeyLength     \<comment> \<open>AES-128 needs a 16-byte key\<close>
  | NumberDoesNotFit     \<comment> \<open>\<^verbatim>\<open>leInt2Buff\<close>: "Number does not fit in this length"\<close>
  | RpcError             \<comment> \<open>a call of the chain RPC threw\<close>
  | API_FETCH_FAILED
  | DecryptFailed        \<comment> \<open>"Failed to decrypt data. Invalid encryption key or corrupted data."\<close>
  | NO_UNSPENT_UTXOS
  | INVALID_AMOUNT
  | AMOUNT_OVERFLOW
  | INSUFFICIENT_BALANCE
  | INVALID_STATE
  | TRANSACTION_TOO_LARGE

definition bindE :: "error + 'a \<Rightarrow> ('a \<Rightarrow> error + 'b) \<Rightarrow> error + 'b" where
  "bindE r f = (case r of Inl e \<Rightarrow> Inl e | Inr v \<Rightarrow> f v)"

text \<open>Little-endian bytes of a magnitude, and the big-endian value of a byte array.\<close>

fun le_bytes :: "nat \<Rightarrow> nat \<Rightarrow> byte list" where
  "le_bytes 0 n = []"
| "le_bytes (Suc k) n = word_of_nat (n mod 256) # le_bytes k (n div 256)"

definition be_nat :: "byte list \<Rightarrow> nat" where
  "be_nat bs = foldl (\<lambda>acc b. acc * 256 + unat b) 0 bs"

text \<open>A 256-bit digest (SHA-256, HMAC-SHA-256) as its 32 bytes, most significant first.\<close>

definition digest_bytes :: "256 word \<Rightarrow> byte list" where
  "digest_bytes w = rev (le_bytes 32 (unat w))"

text \<open>\<^verbatim>\<open>new BN(bytes)\<close>: a byte array is read big-endian.\<close>

definition bn_of_bytes :: "byte list \<Rightarrow> int" where
  "bn_of_bytes bs = int (be_nat bs)"

text \<open>
  \<^verbatim>\<open>bn.toArrayLike(Buffer, "le", len)\<close> and \<^verbatim>\<open>bn.toArray("le", len)\<close>: the
  magnitude, little-endian, padded to \<open>len\<close> bytes; bn.js asserts that the magnitude
  fits (\<^verbatim>\<open>byte array longer than desired length\<close>) and that \<open>len > 0\<close>.
\<close>

definition bn_toArrayLike_le :: "int \<Rightarrow> nat \<Rightarrow> error + byte list" where
  "bn_toArrayLike_le x len =
     (if len = 0 \<or> 256 ^ len \<le> nat \<bar>x\<bar> then Inl BNAssertion
      else Inr (le_bytes len (nat \<bar>x\<bar>)))"

text \<open>
  \<^verbatim>\<open>bn.toNumber()\<close>: bn.js asserts \<^verbatim>\<open>Number can only safely store up to 53 bits\<close>.
\<close>

definition bn_toNumber :: "int \<Rightarrow> error + int" where
  "bn_toNumber x = (if \<bar>x\<bar> < 2 ^ 53 then Inr x else Inl BNAssertion)"

text \<open>
  \<^verbatim>\<open>new BN(number)\<close>: bn.js keeps the sign, asserts that the magnitude is below
  \<open>2^53\<close> and drops the fraction (the words are taken with \<^verbatim>\<open>&\<close>).
\<close>

definition bn_of_number :: "real \<Rightarrow> error + int" where
  "bn_of_number x =
     (if 2 ^ 53 \<le> \<bar>x\<bar> then Inl BNAssertion
      else Inr (if x < 0 then - \<lfloor>- x\<rfloor> else \<lfloor>x\<rfloor>))"

text \<open>
  \<^verbatim>\<open>bn.toTwos(width)\<close>: a negative value becomes \<^verbatim>\<open>abs().inotn(width).iaddn(1)\<close>.
  \<^verbatim>\<open>inotn\<close> works on 26-bit words: it flips the low \<open>width\<close> bits, clears the rest
  of the last word it touches and leaves higher words alone.
\<close>

definition bn_inotn :: "nat \<Rightarrow> nat \<Rightarrow> nat" where
  "bn_inotn width m =
     (let W = 26 * ((width + 25) div 26)
      in (2 ^ width - 1 - m mod 2 ^ width) + (m div 2 ^ W) * 2 ^ W)"

definition bn_toTwos :: "nat \<Rightarrow> int \<Rightarrow> int" where
  "bn_toTwos width x = (if x < 0 then int (bn_inotn width (nat \<bar>x\<bar>)) + 1 else x)"

text \<open>\<^verbatim>\<open>BN.mod\<close>: the remainder takes the sign of the dividend.\<close>

definition bn_mod :: "int \<Rightarrow> int \<Rightarrow> int" where
  "bn_mod a b = sgn a * (\<bar>a\<bar> mod \<bar>b\<bar>)"

definition FIELD_SIZE :: int where
  "FIELD_SIZE = 21888242871839275222246405745257275088548364400416034343698204186575808495617"

subsection \<open>Decimal strings\<close>

text \<open>\<^verbatim>\<open>bn.toString()\<close> prints base 10; \<^verbatim>\<open>new BN(string)\<close> reads base 10.\<close>

definition digit_char :: "nat \<Rightarrow> char" where
  "digit_char d = char_of (48 + d)"

function nat_to_dec :: "nat \<Rightarrow> string" where
  "nat_to_dec n = (if n < 10 then [digit_char n] else nat_to_dec (n div 10) @ [digit_char (n mod 10)])"
  by pat_completeness auto
termination
  by (relation "measure id") auto

declare nat_to_dec.simps [simp del]

definition bn_toString :: "int \<Rightarrow> string" where
  "bn_toString x = (if x < 0 then CHR ''-'' # nat_to_dec (nat (- x)) else nat_to_dec (nat x))"

definition is_digit :: "char \<Rightarrow> bool" where
  "is_digit c = (48 \<le> (of_char c :: nat) \<and> (of_char c :: nat) \<le> 57)"

definition dec_value :: "string \<Rightarrow> nat" where
  "dec_value s = foldl (\<lambda>acc c. acc * 10 + ((of_char c :: nat) - 48)) 0 s"

text \<open>
  \<^verbatim>\<open>new BN(string)\<close>, base 10. The constructor reads \<^verbatim>\<open>number || 0\<close>, so the empty
  string is zero. Otherwise bn.js removes all white space (\<^verbatim>\<open>replace(/\\s+/g, '')\<close>), takes
  an optional minus sign and parses the rest, where any character that is not a digit
  fails the \<^verbatim>\<open>Invalid character\<close> assertion. When nothing is left to parse (the string was
  white space, or a lone minus sign) the number is left without words and every use of it
  throws a \<^verbatim>\<open>TypeError\<close>; the error is raised here, where the number is made.
\<close>

definition is_js_space :: "char \<Rightarrow> bool" where
  "is_js_space c = ((of_char c :: nat) \<in> {9, 10, 11, 12, 13, 32, 160})"

definition bn_of_string :: "string \<Rightarrow> error + int" where
  "bn_of_string s =
     (if s = [] then Inr 0
      else
        (case filter (\<lambda>c. \<not> is_js_space c) s of
           [] \<Rightarrow> Inl TypeError
         | c # cs \<Rightarrow>
             if c = CHR ''-'' then
               (if cs = [] then Inl TypeError
                else if list_all is_digit cs then Inr (- int (dec_value cs))
                else Inl BNAssertion)
             else if list_all is_digit (c # cs) then Inr (int (dec_value (c # cs)))
             else Inl BNAssertion))"

section \<open>Ext-data hash (\<^verbatim>\<open>utils/getExtDataHash.ts\<close>)\<close>

text \<open>
  \<^verbatim>\<open>BufferWriter.writeU32\<close> goes through \<^verbatim>\<open>Buffer.writeUInt32LE\<close>, which throws a
  \<^verbatim>\<open>RangeError\<close> above \<open>2^32 - 1\<close>; \<^verbatim>\<open>writeU64\<close> is \<^verbatim>\<open>toArrayLike(Buffer, "le", 8)\<close>.
\<close>

definition writeU32 :: "nat \<Rightarrow> error + byte list" where
  "writeU32 v = (if v < 2 ^ 32 then Inr (le_bytes 4 v) else Inl RangeError)"

definition writeU64 :: "int \<Rightarrow> error + byte list" where
  "writeU64 v = bn_toArrayLike_le v 8"

text \<open>
  An optional ciphertext is \<^verbatim>\<open>string | Uint8Array | undefined\<close>. In JavaScript the
  empty string is falsy and every object (also an empty array) is truthy;
  \<^verbatim>\<open>Buffer.from(string)\<close> gives the UTF-8 bytes of the string.
\<close>

datatype js_bytes = JsString string | JsBytes "byte list"

definition truthy :: "js_bytes option \<Rightarrow> bool" where
  "truthy v = (case v of None \<Rightarrow> False | Some (JsString s) \<Rightarrow> s \<noteq> [] | Some (JsBytes b) \<Rightarrow> True)"

definition buffer_from :: "js_bytes \<Rightarrow> byte list" where
  "buffer_from v = (case v of JsString s \<Rightarrow> map of_char s | JsBytes b \<Rightarrow> b)"

definition encrypted_output_bytes :: "js_bytes option \<Rightarrow> byte list" where
  "encrypted_output_bytes v = (if truthy v then buffer_from (the v) else [])"

text \<open>
  The mint is \<^verbatim>\<open>string | PublicKey\<close>. A \<^verbatim>\<open>PublicKey\<close> is its 32 bytes. The native
  mint is the base58 string \<^verbatim>\<open>11111111111111111111111111111112\<close>, whose bytes are 31
  zeros and a one; base58 is injective on 32-byte keys, so the source's comparison of
  \<^verbatim>\<open>toString()\<close> with that literal is a comparison of the bytes. Parsing any other
  string as a key (\<^verbatim>\<open>new PublicKey(s)\<close>, base58) is the parameter \<open>pk\<close>.
\<close>

datatype mint = MintKey "byte list" | MintStr string

definition SOL_MINT :: string where
  "SOL_MINT = ''11111111111111111111111111111112''"

definition SOL_MINT_bytes :: "byte list" where
  "SOL_MINT_bytes = replicate 31 0 @ [1]"

text \<open>Legacy mode (\<^verbatim>\<open>useNumericMintFormat = true\<close>): the first branch of the source.\<close>

definition mintAddressBytes_numeric :: "mint \<Rightarrow> error + byte list" where
  "mintAddressBytes_numeric m =
     (case m of
        MintKey bs \<Rightarrow>
          if bs = SOL_MINT_bytes then Inr bs
          else bn_toArrayLike_le (bn_of_bytes bs) 32
      | MintStr s \<Rightarrow>
          if s = SOL_MINT then Inr SOL_MINT_bytes
          else bindE (bn_of_string s) (\<lambda>mintBN. bn_toArrayLike_le mintBN 32))"

text \<open>New mode (the default): always the key's bytes.\<close>

definition mintAddressBytes_publickey ::
  "(string \<Rightarrow> byte list option) \<Rightarrow> mint \<Rightarrow> error + byte list" where
  "mintAddressBytes_publickey pk m =
     (case m of
        MintKey bs \<Rightarrow> Inr bs
      | MintStr s \<Rightarrow>
          if s = SOL_MINT then Inr SOL_MINT_bytes
          else (case pk s of None \<Rightarrow> Inl InvalidPublicKey | Some bs \<Rightarrow> Inr bs))"

definition mintAddressBytes ::
  "(string \<Rightarrow> byte list option) \<Rightarrow> bool \<Rightarrow> mint \<Rightarrow> error + byte list" where
  "mintAddressBytes pk useNumericMintFormat m =
     (if useNumericMintFormat then mintAddressBytes_numeric m
      else mintAddressBytes_publickey pk m)"

record ext_data =
  recipient :: "byte list"
  extAmount :: int
  encryptedOutput1 :: "js_bytes option"
  encryptedOutput2 :: "js_bytes option"
  fee :: int
  feeRecipient :: "byte list"
  mintAddress :: mint

text \<open>
  The serialized preimage, in the order the source writes it. The sign test is
  \<^verbatim>\<open>extAmount.toNumber() < 0\<close>, so the 53-bit assertion of \<^verbatim>\<open>toNumber\<close> comes first.
\<close>

definition extAmount_field :: "int \<Rightarrow> error + byte list" where
  "extAmount_field x =
     bindE (bn_toNumber x) (\<lambda>extAmountValue.
       if extAmountValue < 0 then
         (let MAX_I64 = 9223372036854775808 in writeU64 (MAX_I64 + MAX_I64 + x))
       else writeU64 x)"

definition ext_data_preimage ::
  "(string \<Rightarrow> byte list option) \<Rightarrow> ext_data \<Rightarrow> bool \<Rightarrow> error + byte list" where
  "ext_data_preimage pk extData useNumericMintFormat =
     bindE (mintAddressBytes pk useNumericMintFormat (mintAddress extData)) (\<lambda>mintBytes.
     let eo1 = encrypted_output_bytes (encryptedOutput1 extData);
         eo2 = encrypted_output_bytes (encryptedOutput2 extData)
     in bindE (extAmount_field (extAmount extData)) (\<lambda>amt.
        bindE (writeU32 (length eo1)) (\<lambda>len1.
        bindE (writeU32 (length eo2)) (\<lambda>len2.
        bindE (writeU64 (fee extData)) (\<lambda>feeBytes.
          Inr (recipient extData @ amt @ len1 @ eo1 @ len2 @ eo2 @ feeBytes
               @ feeRecipient extData @ mintBytes))))))"

text \<open>SHA-256 (\<^verbatim>\<open>sha256\<close> of ethers) is the parameter \<open>sha256\<close>; the digest is 32 bytes.\<close>

definition getExtDataHash ::
  "(byte list \<Rightarrow> 256 word) \<Rightarrow> (string \<Rightarrow> byte list option) \<Rightarrow> ext_data \<Rightarrow> bool
     \<Rightarrow> error + byte list" where
  "getExtDataHash sha256 pk extData useNumericMintFormat =
     bindE (ext_data_preimage pk extData useNumericMintFormat) (\<lambda>serializedData.
       Inr (digest_bytes (sha256 serializedData)))"

section \<open>On-wire payload (\<^verbatim>\<open>serializeProofAndExtData\<close> in \<^verbatim>\<open>utils/encryption.ts\<close>)\<close>

record proof_to_submit =
  proofA :: "byte list"
  proofB :: "byte list"
  proofC :: "byte list"
  root :: "byte list"
  publicAmount :: "byte list"
  extDataHash :: "byte list"
  inputNullifiers :: "byte list \<times> byte list"
  outputCommitments :: "byte list \<times> byte list"

definition TRANSACT_IX_DISCRIMINATOR :: "byte list" where
  "TRANSACT_IX_DISCRIMINATOR = [217, 149, 130, 143, 221, 52, 252, 119]"

definition TRANSACT_SPL_IX_DISCRIMINATOR :: "byte list" where
  "TRANSACT_SPL_IX_DISCRIMINATOR = [154, 66, 244, 204, 78, 225, 163, 151]"

text \<open>\<^verbatim>\<open>extData.extAmount.toTwos(64).toArray("le", 8)\<close>.\<close>

definition extAmount_wire :: "int \<Rightarrow> error + byte list" where
  "extAmount_wire x = bn_toArrayLike_le (bn_toTwos 64 x) 8"

text \<open>
  \<^verbatim>\<open>new BN(output.length).toArray("le", 4)\<close> followed by the output itself, which
  \<^verbatim>\<open>Buffer.concat\<close> accepts only when it is a byte array.
\<close>

definition vec_u8_wire :: "js_bytes option \<Rightarrow> error + byte list" where
  "vec_u8_wire v =
     (case v of
        Some (JsBytes b) \<Rightarrow>
          bindE (bn_of_number (real (length b))) (\<lambda>n.
          bindE (bn_toArrayLike_le n 4) (\<lambda>len. Inr (len @ b)))
      | _ \<Rightarrow> Inl TypeError)"

definition serializeProofAndExtData ::
  "proof_to_submit \<Rightarrow> ext_data \<Rightarrow> byte list \<Rightarrow> error + byte list" where
  "serializeProofAndExtData proof extData discriminator =
     bindE (extAmount_wire (extAmount extData)) (\<lambda>amt.
     bindE (bn_toArrayLike_le (fee extData) 8) (\<lambda>feeBytes.
     bindE (vec_u8_wire (encryptedOutput1 extData)) (\<lambda>eo1.
     bindE (vec_u8_wire (encryptedOutput2 extData)) (\<lambda>eo2.
       Inr (discriminator @ proofA proof @ proofB proof @ proofC proof @ root proof
            @ publicAmount proof @ extDataHash proof
            @ fst (inputNullifiers proof) @ snd (inputNullifiers proof)
            @ fst (outputCommitments proof) @ snd (outputCommitments proof)
            @ amt @ feeBytes @ eo1 @ eo2)))))"

section \<open>Notes (\<^verbatim>\<open>models/utxo.ts\<close>)\<close>

text \<open>
  Poseidon (\<^verbatim>\<open>lightWasm.poseidonHashString\<close>) is the parameter \<open>H\<close>: it takes decimal
  strings and yields a field element, here a 256-bit word, printed in decimal.
\<close>

type_synonym poseidon = "string list \<Rightarrow> 256 word"

record keypair =
  privkey :: string
  pubkey :: string

record utxo =
  amount :: int
  blinding :: int
  keypair :: keypair
  index :: int
  mintAddress :: string

definition poseidonHashString :: "poseidon \<Rightarrow> string list \<Rightarrow> string" where
  "poseidonHashString H xs = nat_to_dec (unat (H xs))"

text \<open>
  Modelled from the spec: \<^verbatim>\<open>Keypair.sign\<close> of \<^verbatim>\<open>models/keypair\<close>, which is not among
  the sources: \<open>sign(commitment, index) = Poseidon(private_key, commitment, index)\<close>.
\<close>

definition sign :: "poseidon \<Rightarrow> keypair \<Rightarrow> string \<Rightarrow> string \<Rightarrow> string" where
  "sign H kp commitment idx = poseidonHashString H [privkey kp, commitment, idx]"

definition getCommitment :: "poseidon \<Rightarrow> utxo \<Rightarrow> string" where
  "getCommitment H u =
     poseidonHashString H
       [bn_toString (amount u), pubkey (keypair u), bn_toString (blinding u), mintAddress u]"

definition getNullifier :: "poseidon \<Rightarrow> utxo \<Rightarrow> string" where
  "getNullifier H u =
     (let commitmentValue = getCommitment H u;
          signature = sign H (keypair u) commitmentValue (bn_toString (index u))
      in poseidonHashString H [commitmentValue, bn_toString (index u), signature])"

text \<open>
  \<^verbatim>\<open>Utxo.randomBN\<close> of \<^verbatim>\<open>src/models/utxo.ts\<close>: four random bytes read as an unsigned
  32-bit big-endian number. The random draw is the argument.
\<close>

definition randomBN :: "32 word \<Rightarrow> int" where
  "randomBN randomValue = int (unat randomValue mod 900000000 + 100000000)"

text \<open>
  \<^verbatim>\<open>Utxo.randomBN\<close> of the second copy of the note model (\<^verbatim>\<open>unnamed/part_009\<close>):
  \<^verbatim>\<open>new BN(Math.floor(Math.random() * 1000000000))\<close>. The argument is the value of
  \<^verbatim>\<open>Math.random()\<close>, a number in \<open>[0, 1)\<close>.
\<close>

definition randomBN_part_009 :: "real \<Rightarrow> error + int" where
  "randomBN_part_009 r = bn_of_number (real_of_int \<lfloor>r * 1000000000\<rfloor>)"

section \<open>Note encryption (\<^verbatim>\<open>EncryptionService\<close> in \<^verbatim>\<open>utils/encryption.ts\<close>)\<close>














section \<open>Note scanner (\<^verbatim>\<open>getMyUtxos\<close>, \<^verbatim>\<open>unnamed/part_004\<close>)\<close>

text \<open>
  The environment of a scan. The relayer's \<^verbatim>\<open>/merkle/proof/{commitment}\<close> answers a
  commitment with an index, with a response that is not \<^verbatim>\<open>ok\<close>, or the request
  throws. The chain is the set of accounts that exist, read through
  \<^verbatim>\<open>connection.getMultipleAccountsInfo\<close>, a call that may throw. Program-derived
  addresses (\<^verbatim>\<open>PublicKey.findProgramAddressSync(seeds, PROGRAM_ID)\<close>) are the parameter
  \<open>pda\<close>. Trial decryption (\<^verbatim>\<open>decrypt_output\<close>: \<^verbatim>\<open>decryptUtxo\<close> inside a
  \<^verbatim>\<open>try\<close>) is the parameter \<open>dec\<close>, \<open>None\<close> when the output is not the holder's.
\<close>

datatype proof_reply = FetchThrows | NotOk | OkIndex int

record connection =
  accounts :: "byte list \<Rightarrow> bool"
  rpc_throws :: "byte list list \<Rightarrow> bool"

definition getMultipleAccountsInfo :: "connection \<Rightarrow> byte list list \<Rightarrow> error + bool list" where
  "getMultipleAccountsInfo conn batch =
     (if rpc_throws conn batch then Inl RpcError else Inr (map (accounts conn) batch))"

text \<open>
  The index update, the same code in both scanning paths: on an \<^verbatim>\<open>ok\<close> response the
  note's index is overwritten; otherwise ("Silently fail, keep original index") the
  note is left as decrypted.
\<close>

definition update_index :: "poseidon \<Rightarrow> (string \<Rightarrow> proof_reply) \<Rightarrow> utxo \<Rightarrow> utxo" where
  "update_index H relayer u =
     (case relayer (getCommitment H u) of
        OkIndex i \<Rightarrow> u\<lparr>index := i\<rparr>
      | _ \<Rightarrow> u)"

text \<open>
  The nullifier bytes: \<^verbatim>\<open>leInt2Buff(unstringifyBigInts(nullifier), 32)\<close>, reversed.
  \<^verbatim>\<open>leInt2Buff\<close> throws when the number does not fit.
\<close>

definition leInt2Buff :: "nat \<Rightarrow> nat \<Rightarrow> error + byte list" where
  "leInt2Buff n len = (if n < 256 ^ len then Inr (le_bytes len n) else Inl NumberDoesNotFit)"

definition nullifierBytes :: "poseidon \<Rightarrow> utxo \<Rightarrow> error + byte list" where
  "nullifierBytes H u =
     bindE (leInt2Buff (dec_value (getNullifier H u)) 32) (\<lambda>b. Inr (rev b))"

definition utxo_pdas ::
  "(byte list list \<Rightarrow> byte list) \<Rightarrow> poseidon \<Rightarrow> utxo \<Rightarrow> error + byte list list" where
  "utxo_pdas pda H u =
     bindE (nullifierBytes H u) (\<lambda>nullifierBuffer.
       Inr [pda [map of_char ''nullifier0'', nullifierBuffer],
            pda [map of_char ''nullifier1'', nullifierBuffer]])"

primrec mapE :: "('a \<Rightarrow> error + 'b) \<Rightarrow> 'a list \<Rightarrow> error + 'b list" where
  "mapE f [] = Inr []"
| "mapE f (x # xs) = bindE (f x) (\<lambda>y. bindE (mapE f xs) (\<lambda>ys. Inr (y # ys)))"

text \<open>The accounts are fetched in batches of 100, one call after the other.\<close>

function fetch_accounts :: "connection \<Rightarrow> byte list list \<Rightarrow> error + bool list" where
  "fetch_accounts conn allPDAs =
     (if allPDAs = [] then Inr []
      else bindE (getMultipleAccountsInfo conn (take 100 allPDAs)) (\<lambda>batchResults.
           bindE (fetch_accounts conn (drop 100 allPDAs)) (\<lambda>more.
             Inr (batchResults @ more))))"
  by pat_completeness auto
termination
  by (relation "measure (\<lambda>(conn, allPDAs). length allPDAs)") auto

declare fetch_accounts.simps [simp del]

definition truthy_at :: "bool list \<Rightarrow> nat \<Rightarrow> bool" where
  "truthy_at xs i = (i < length xs \<and> xs ! i)"

text \<open>
  \<^verbatim>\<open>batchCheckUtxosSpent\<close>. Note \<open>i\<close> owns the addresses at positions \<open>2i\<close> and
  \<open>2i + 1\<close>. The whole body is inside \<^verbatim>\<open>try\<close>. Its handler is
  \<^verbatim>\<open>catch (error: any) { error("Error in batch checking UTXOs:", error); ... }\<close>: the
  parameter of the \<^verbatim>\<open>catch\<close> shadows the imported logger \<^verbatim>\<open>error\<close>, so the handler calls
  the caught error object, which throws a \<^verbatim>\<open>TypeError\<close>; the line after it, which would
  answer "all unspent", is not reached.
\<close>

definition batchCheckUtxosSpent ::
  "(byte list list \<Rightarrow> byte list) \<Rightarrow> poseidon \<Rightarrow> connection \<Rightarrow> utxo list
     \<Rightarrow> error + bool list" where
  "batchCheckUtxosSpent pda H conn utxos =
     (if utxos = [] then Inr []
      else
        (case bindE (mapE (utxo_pdas pda H) utxos) (\<lambda>pdas.
              bindE (fetch_accounts conn (concat pdas)) (\<lambda>allAccountInfos.
                Inr (map (\<lambda>i. truthy_at allAccountInfos (2 * i)
                              \<or> truthy_at allAccountInfos (2 * i + 1))
                      [0..<length utxos]))) of
           Inr spentStatuses \<Rightarrow> Inr spentStatuses
         | Inl e \<Rightarrow> Inl TypeError))"

text \<open>
  \<^verbatim>\<open>decryptCachedOutputs\<close>, first loop: decrypted, non-zero, not seen before. The source
  decrypts 500 outputs at a time and then walks each batch in order; trial decryption has
  no effect, so this is one walk over the list.
\<close>

fun collect_candidates ::
  "(string \<Rightarrow> utxo option) \<Rightarrow> string list \<Rightarrow> utxo list \<Rightarrow> string list \<Rightarrow> error + utxo list" where
  "collect_candidates dec [] candidateUtxos seenEncryptedOutputs = Inr candidateUtxos"
| "collect_candidates dec (encryptedOutput # rest) candidateUtxos seenEncryptedOutputs =
     (case dec encryptedOutput of
        None \<Rightarrow> collect_candidates dec rest candidateUtxos seenEncryptedOutputs
      | Some u \<Rightarrow>
          bindE (bn_toNumber (amount u)) (\<lambda>a.
            if a = 0 then collect_candidates dec rest candidateUtxos seenEncryptedOutputs
            else if List.member seenEncryptedOutputs encryptedOutput
              then collect_candidates dec rest candidateUtxos seenEncryptedOutputs
            else collect_candidates dec rest (candidateUtxos @ [u])
                   (seenEncryptedOutputs @ [encryptedOutput])))"

definition keep_unspent :: "utxo list \<Rightarrow> bool list \<Rightarrow> utxo list" where
  "keep_unspent candidateUtxos spentStatuses =
     map (\<lambda>i. candidateUtxos ! i)
       (filter (\<lambda>i. \<not> truthy_at spentStatuses i) [0..<length candidateUtxos])"

definition decryptCachedOutputs ::
  "(string \<Rightarrow> utxo option) \<Rightarrow> poseidon \<Rightarrow> (string \<Rightarrow> proof_reply)
     \<Rightarrow> (byte list list \<Rightarrow> byte list) \<Rightarrow> connection \<Rightarrow> string list \<Rightarrow> error + utxo list" where
  "decryptCachedOutputs dec H relayer pda conn encryptedOutputs =
     bindE (collect_candidates dec encryptedOutputs [] []) (\<lambda>candidateUtxos.
       if candidateUtxos = [] then Inr []
       else
         (let updated = map (update_index H relayer) candidateUtxos
          in bindE (batchCheckUtxosSpent pda H conn updated) (\<lambda>spentStatuses.
               Inr (keep_unspent updated spentStatuses))))"

text \<open>
  The fresh path (\<^verbatim>\<open>loadUtxos\<close> inside \<^verbatim>\<open>getMyUtxos\<close>). \<^verbatim>\<open>fetchUserUtxos\<close> gives, per
  range, all encrypted outputs, the notes that decrypted, and \<^verbatim>\<open>hasMore\<close>. The walk
  over the ranges stops after the first one without \<^verbatim>\<open>hasMore\<close>. The duplicate test
  reads \<^verbatim>\<open>fetched.encryptedOutputs[k]\<close> with \<open>k\<close> the position among the decrypted notes.
\<close>

record fetched_batch =
  encryptedOutputs :: "string list"
  hashMore :: bool

definition fetched_utxos :: "(string \<Rightarrow> utxo option) \<Rightarrow> fetched_batch \<Rightarrow> utxo list" where
  "fetched_utxos dec fetched = List.map_filter dec (encryptedOutputs fetched)"

fun non_zero :: "(nat \<times> utxo) list \<Rightarrow> error + (nat \<times> utxo) list" where
  "non_zero [] = Inr []"
| "non_zero ((k, u) # rest) =
     bindE (bn_toNumber (amount u)) (\<lambda>a.
       bindE (non_zero rest) (\<lambda>more. Inr (if a = 0 then more else (k, u) # more)))"

fun push_valid ::
  "string list \<Rightarrow> ((nat \<times> utxo) \<times> bool) list \<Rightarrow> utxo list \<Rightarrow> string list
     \<Rightarrow> utxo list \<times> string list" where
  "push_valid outs [] valid_utxos seen = (valid_utxos, seen)"
| "push_valid outs (((k, u), isSpent) # rest) valid_utxos seen =
     (if isSpent then push_valid outs rest valid_utxos seen
      else if k < length outs \<and> List.member seen (outs ! k)
        then push_valid outs rest valid_utxos seen
      else push_valid outs rest (valid_utxos @ [u])
             (if k < length outs then seen @ [outs ! k] else seen))"

fun loadUtxos ::
  "(string \<Rightarrow> utxo option) \<Rightarrow> poseidon \<Rightarrow> (string \<Rightarrow> proof_reply)
     \<Rightarrow> (byte list list \<Rightarrow> byte list) \<Rightarrow> connection \<Rightarrow> fetched_batch list
     \<Rightarrow> utxo list \<Rightarrow> string list \<Rightarrow> error + utxo list" where
  "loadUtxos dec H relayer pda conn [] valid_utxos seen = Inr valid_utxos"
| "loadUtxos dec H relayer pda conn (fetched # rest) valid_utxos seen =
     bindE (non_zero (enumerate 0 (fetched_utxos dec fetched))) (\<lambda>nonZeroUtxos.
       let updated = map (\<lambda>(k, u). (k, update_index H relayer u)) nonZeroUtxos
       in bindE (batchCheckUtxosSpent pda H conn (map snd updated)) (\<lambda>spentStatuses.
       let (valid', seen') =
              push_valid (encryptedOutputs fetched)
                (map (\<lambda>i. (updated ! i, truthy_at spentStatuses i)) [0..<length updated])
                valid_utxos seen
       in if \<not> hashMore fetched then Inr valid'
          else loadUtxos dec H relayer pda conn rest valid' seen'))"

text \<open>
  \<^verbatim>\<open>getMyUtxos\<close> takes the cached path when a non-empty cache exists and no refresh is
  forced, over the cached outputs with the newly fetched ones appended; otherwise it
  takes the fresh path over the ranges it fetches.
\<close>

datatype scan_source = Cached "string list" | Fresh "fetched_batch list"

definition getMyUtxos ::
  "(string \<Rightarrow> utxo option) \<Rightarrow> poseidon \<Rightarrow> (string \<Rightarrow> proof_reply)
     \<Rightarrow> (byte list list \<Rightarrow> byte list) \<Rightarrow> connection \<Rightarrow> scan_source \<Rightarrow> error + utxo list" where
  "getMyUtxos dec H relayer pda conn src =
     (case src of
        Cached outs \<Rightarrow> decryptCachedOutputs dec H relayer pda conn outs
      | Fresh batches \<Rightarrow> loadUtxos dec H relayer pda conn batches [] [])"

text \<open>The two marker accounts of a note: the addresses \<^verbatim>\<open>batchCheckUtxosSpent\<close> derives.\<close>

definition marker0 :: "(byte list list \<Rightarrow> byte list) \<Rightarrow> poseidon \<Rightarrow> utxo \<Rightarrow> byte list" where
  "marker0 pda H u =
     pda [map of_char ''nullifier0'', rev (le_bytes 32 (dec_value (getNullifier H u)))]"

definition marker1 :: "(byte list list \<Rightarrow> byte list) \<Rightarrow> poseidon \<Rightarrow> utxo \<Rightarrow> byte list" where
  "marker1 pda H u =
     pda [map of_char ''nullifier1'', rev (le_bytes 32 (dec_value (getNullifier H u)))]"

definition is_spent :: "(byte list list \<Rightarrow> byte list) \<Rightarrow> poseidon \<Rightarrow> connection \<Rightarrow> utxo \<Rightarrow> bool" where
  "is_spent pda H conn u = (accounts conn (marker0 pda H u) \<or> accounts conn (marker1 pda H u))"

text \<open>All encrypted outputs a scan reads.\<close>

definition scanned_outputs :: "scan_source \<Rightarrow> string list" where
  "scanned_outputs src =
     (case src of Cached outs \<Rightarrow> outs | Fresh batches \<Rightarrow> concat (map encryptedOutputs batches))"

text \<open>
  An inclusion-proof service that holds a leaf index for each commitment of the tree and
  whose requests may fail.
\<close>

definition service_reply :: "(string \<Rightarrow> int option) \<Rightarrow> (string \<Rightarrow> bool) \<Rightarrow> string \<Rightarrow> proof_reply" where
  "service_reply leaf_index request_fails commitment =
     (if request_fails commitment then FetchThrows
      else (case leaf_index commitment of Some i \<Rightarrow> OkIndex i | None \<Rightarrow> NotOk))"

section \<open>Building a transaction (\<^verbatim>\<open>withdraw\<close> in \<^verbatim>\<open>utils/fetchWithRetry.ts\<close>, \<^verbatim>\<open>depositSpl\<close> in \<^verbatim>\<open>utils/prover.ts\<close>)\<close>

definition LAMPORTS_PER_SOL :: real where "LAMPORTS_PER_SOL = 1000000000"
definition WITHDRAW_FEE_RATE :: real where "WITHDRAW_FEE_RATE = 0.3"
definition DEPOSIT_FEE_RATE :: real where "DEPOSIT_FEE_RATE = 0.3"
definition MAX_SAFE_INTEGER :: real where "MAX_SAFE_INTEGER = 9007199254740991"
definition MAX_LAMPORTS :: int where "MAX_LAMPORTS = 18446744073709551615"
definition MAX_TRANSACTION_SIZE :: nat where "MAX_TRANSACTION_SIZE = 1700"

text \<open>
  \<^verbatim>\<open>new Utxo({...})\<close>. Where the caller gives no keypair or no blinding the constructor
  draws them at random; the draws are arguments (a key pair, and the 32-bit number
  \<^verbatim>\<open>randomBN\<close> reads).
\<close>

definition new_Utxo :: "int \<Rightarrow> keypair \<Rightarrow> int \<Rightarrow> int \<Rightarrow> string \<Rightarrow> utxo" where
  "new_Utxo a kp b i m = \<lparr>amount = a, blinding = b, keypair = kp, index = i, mintAddress = m\<rparr>"

record randomness =
  dummy_keypair1 :: keypair
  dummy_keypair2 :: keypair
  dummy_draw1 :: "32 word"
  dummy_draw2 :: "32 word"
  output_draw1 :: "32 word"
  output_draw2 :: "32 word"

record tx_plan =
  tx_inputs :: "utxo list"
  tx_outputs :: "utxo list"
  tx_extAmount :: int
  tx_fee :: int
  tx_publicAmount :: int

text \<open>The amounts of the circuit input: \<^verbatim>\<open>inAmount\<close> and \<^verbatim>\<open>outAmount\<close>.\<close>

definition inAmount :: "tx_plan \<Rightarrow> int list" where
  "inAmount tx = map amount (tx_inputs tx)"

definition outAmount :: "tx_plan \<Rightarrow> int list" where
  "outAmount tx = map amount (tx_outputs tx)"

datatype build_result = Single tx_plan | BatchWithdrawal

definition validateWithdrawalAmount :: "real \<Rightarrow> int \<Rightarrow> real \<Rightarrow> error + bool \<times> real" where
  "validateWithdrawalAmount amountInSol availableBalance feeAmount =
     (if amountInSol \<le> 0 then Inl INVALID_AMOUNT
      else
        (let amountInLamports = real_of_int \<lfloor>amountInSol * 1000000000\<rfloor>
         in if amountInLamports > MAX_SAFE_INTEGER then Inl AMOUNT_OVERFLOW
            else bindE (bn_of_number amountInLamports) (\<lambda>requestedBN.
                 bindE (bn_of_number feeAmount) (\<lambda>feeBN.
                   if availableBalance < requestedBN + feeBN then Inl INSUFFICIENT_BALANCE
                   else Inr (False, amountInSol)))))"

definition estimateTransactionSize :: "nat \<Rightarrow> nat \<Rightarrow> bool \<Rightarrow> nat \<Rightarrow> nat" where
  "estimateTransactionSize numInputs numOutputs hasProof numAdditionalAccounts =
     (let size = 300 + (if hasProof then 800 else 0) + 64;
          accountCount = numInputs * 2 + numOutputs + 5 + numAdditionalAccounts
      in size + accountCount * 32)"

definition validateTransactionSize :: "nat \<Rightarrow> nat \<Rightarrow> bool \<Rightarrow> nat \<Rightarrow> error + unit" where
  "validateTransactionSize numInputs numOutputs hasProof numAdditionalAccounts =
     (if estimateTransactionSize numInputs numOutputs hasProof numAdditionalAccounts
           > MAX_TRANSACTION_SIZE
      then Inl TRANSACTION_TOO_LARGE else Inr ())"

text \<open>
  \<^verbatim>\<open>fetchMerkleProof\<close> of the transaction builders throws unless the response is
  \<^verbatim>\<open>ok\<close>. A dummy input (amount 0) gets a zero proof with index 0 and keeps its index.
\<close>

definition fetchMerkleProof :: "(string \<Rightarrow> proof_reply) \<Rightarrow> string \<Rightarrow> error + int" where
  "fetchMerkleProof relayer commitment =
     (case relayer commitment of OkIndex i \<Rightarrow> Inr i | _ \<Rightarrow> Inl API_FETCH_FAILED)"

definition input_with_proof_index ::
  "poseidon \<Rightarrow> (string \<Rightarrow> proof_reply) \<Rightarrow> utxo \<Rightarrow> error + utxo" where
  "input_with_proof_index H relayer u =
     (if amount u = 0 then Inr u
      else bindE (fetchMerkleProof relayer (getCommitment H u)) (\<lambda>i. Inr (u\<lparr>index := i\<rparr>)))"

text \<open>
  \<^verbatim>\<open>publicAmountForCircuit = new BN(extAmount).sub(new BN(fee)).add(FIELD_SIZE).mod(FIELD_SIZE)\<close>.
\<close>

definition publicAmountForCircuit :: "int \<Rightarrow> int \<Rightarrow> int" where
  "publicAmountForCircuit ext f = bn_mod (ext - f + FIELD_SIZE) FIELD_SIZE"

text \<open>
  \<^verbatim>\<open>withdraw\<close>, from the amount to the circuit input. \<open>unspentUtxos\<close> is the list the
  source has after fetching and filtering (or \<^verbatim>\<open>providedUtxos\<close>); \<open>locked\<close> is the answer
  of \<^verbatim>\<open>tryLockWithRetry\<close>. When more than two notes are needed the source plans a batch
  of withdrawals, each of which runs this same function on its own notes.
\<close>

definition withdraw_build ::
  "poseidon \<Rightarrow> (string \<Rightarrow> proof_reply) \<Rightarrow> randomness \<Rightarrow> keypair \<Rightarrow> int \<Rightarrow> bool
     \<Rightarrow> real \<Rightarrow> utxo list \<Rightarrow> error + build_result" where
  "withdraw_build H relayer rnd utxoKeypair currentNextIndex locked amount_in_sol unspentUtxos =
     (let amount_in_lamports0 = amount_in_sol * LAMPORTS_PER_SOL;
          fee_amount_in_lamports =
            real_of_int \<lfloor>amount_in_lamports0 * (WITHDRAW_FEE_RATE / 100)\<rfloor>;
          amount_in_lamports = amount_in_lamports0 - fee_amount_in_lamports;
          totalUnspentBalance = sum_list (map amount unspentUtxos)
      in if length unspentUtxos < 1 then Inl NO_UNSPENT_UTXOS
         else
         bindE (validateWithdrawalAmount amount_in_sol totalUnspentBalance fee_amount_in_lamports)
           (\<lambda>validationResult.
         let sorted = sort_key (\<lambda>u. - amount u) unspentUtxos in
         bindE (bn_of_number amount_in_lamports) (\<lambda>amountBN.
         bindE (bn_of_number fee_amount_in_lamports) (\<lambda>feeBN.
         let totalNeeded = amountBN + feeBN;
             firstTwoTotal =
               (if length sorted \<ge> 2 then amount (sorted ! 0) + amount (sorted ! 1)
                else amount (sorted ! 0))
         in if firstTwoTotal < totalNeeded \<and> length sorted > 2 then Inr BatchWithdrawal
            else
            let firstInput = sorted ! 0;
                secondInput =
                  (if length sorted > 1 then sorted ! 1
                   else new_Utxo 0 (dummy_keypair1 rnd) (randomBN (dummy_draw1 rnd)) 0 SOL_MINT)
            in if \<not> locked then Inl INVALID_STATE
               else
               bindE (validateTransactionSize (if amount secondInput > 0 then 2 else 1) 2 True 5)
                 (\<lambda>_.
               let totalInputAmount = amount firstInput + amount secondInput in
               bindE (bn_toNumber totalInputAmount) (\<lambda>totalNumber.
               if totalNumber = 0 then Inl INSUFFICIENT_BALANCE
               else
               bindE (bn_of_number (amount_in_lamports + fee_amount_in_lamports))
                 (\<lambda>totalRequired.
               if totalInputAmount < totalRequired then Inl INSUFFICIENT_BALANCE
               else
               let changeAmount = totalInputAmount - amountBN - feeBN in
               bindE (mapE (input_with_proof_index H relayer) [firstInput, secondInput])
                 (\<lambda>inputs.
               let outputs =
                     [new_Utxo changeAmount utxoKeypair (randomBN (output_draw1 rnd))
                        currentNextIndex SOL_MINT,
                      new_Utxo 0 utxoKeypair (randomBN (output_draw2 rnd))
                        (currentNextIndex + 1) SOL_MINT];
                   extAmount = - amount_in_lamports
               in bindE (bn_of_number extAmount) (\<lambda>extAmountBN.
                  Inr (Single
                    \<lparr>tx_inputs = inputs, tx_outputs = outputs, tx_extAmount = extAmountBN,
                     tx_fee = feeBN,
                     tx_publicAmount = publicAmountForCircuit extAmountBN feeBN\<rparr>))))))))))"

text \<open>
  \<^verbatim>\<open>depositSpl\<close>. The numeric mint of the notes is the mint key read big-endian and
  reduced modulo \<open>FIELD_SIZE\<close>, in decimal. \<open>balance\<close> is the token balance the chain
  reports; \<open>existingUnspentUtxos\<close> the holder's unspent notes of this mint, in scan order.
\<close>

definition mintAddressNumeric :: "byte list \<Rightarrow> string" where
  "mintAddressNumeric mintBytes = bn_toString (bn_mod (bn_of_bytes mintBytes) FIELD_SIZE)"

definition validateSplAmount :: "real \<Rightarrow> error + unit" where
  "validateSplAmount a =
     (if a \<le> 0 then Inl INVALID_AMOUNT
      else if a \<noteq> real_of_int \<lfloor>a\<rfloor> then Inl INVALID_AMOUNT
      else if a > MAX_SAFE_INTEGER then Inl AMOUNT_OVERFLOW
      else bindE (bn_of_number a) (\<lambda>amountBN.
             if amountBN > MAX_LAMPORTS then Inl AMOUNT_OVERFLOW else Inr ()))"

text \<open>The two scenarios of a deposit: the output amount and the two inputs.\<close>

definition deposit_inputs ::
  "poseidon \<Rightarrow> (string \<Rightarrow> proof_reply) \<Rightarrow> randomness \<Rightarrow> string \<Rightarrow> int \<Rightarrow> int
     \<Rightarrow> utxo list \<Rightarrow> error + int \<times> utxo list" where
  "deposit_inputs H relayer rnd mintNumeric amountBN feeBN existingUnspentUtxos =
     (if length existingUnspentUtxos = 0 then
        Inr (amountBN - feeBN,
             [new_Utxo 0 (dummy_keypair1 rnd) (randomBN (dummy_draw1 rnd)) 0 mintNumeric,
              new_Utxo 0 (dummy_keypair2 rnd) (randomBN (dummy_draw2 rnd)) 0 mintNumeric])
      else
        (let firstUtxo = existingUnspentUtxos ! 0;
             secondUtxoAmount =
               (if length existingUnspentUtxos > 1 then amount (existingUnspentUtxos ! 1)
                else 0);
             outputAmount = amount firstUtxo + secondUtxoAmount + amountBN - feeBN;
             secondUtxo =
               (if length existingUnspentUtxos > 1 then existingUnspentUtxos ! 1
                else new_Utxo 0 (dummy_keypair1 rnd) (randomBN (dummy_draw1 rnd)) 0
                       mintNumeric)
         in bindE (fetchMerkleProof relayer (getCommitment H firstUtxo)) (\<lambda>_.
            bindE (if amount secondUtxo > 0
                   then fetchMerkleProof relayer (getCommitment H secondUtxo)
                   else Inr 0) (\<lambda>_.
              Inr (outputAmount, [firstUtxo, secondUtxo])))))"

definition depositSpl_build ::
  "poseidon \<Rightarrow> (string \<Rightarrow> proof_reply) \<Rightarrow> randomness \<Rightarrow> keypair \<Rightarrow> int \<Rightarrow> byte list
     \<Rightarrow> real \<Rightarrow> real \<Rightarrow> utxo list \<Rightarrow> error + tx_plan" where
  "depositSpl_build H relayer rnd utxoKeypair currentNextIndex mintBytes balance amt
       existingUnspentUtxos =
     bindE (validateSplAmount amt) (\<lambda>_.
     let mintNumeric = mintAddressNumeric mintBytes;
         fee_amount = real_of_int \<lfloor>(amt * DEPOSIT_FEE_RATE) / 100\<rfloor>
     in if balance < amt + fee_amount then Inl INSUFFICIENT_BALANCE
        else
        bindE (bn_of_number amt) (\<lambda>amountBN.
        bindE (bn_of_number fee_amount) (\<lambda>feeBN.
        bindE (deposit_inputs H relayer rnd mintNumeric amountBN feeBN existingUnspentUtxos)
          (\<lambda>(outputAmount, inputs).
             let outputs =
                   [new_Utxo outputAmount utxoKeypair (randomBN (output_draw1 rnd))
                      currentNextIndex mintNumeric,
                    new_Utxo 0 utxoKeypair (randomBN (output_draw2 rnd))
                      (currentNextIndex + 1) mintNumeric]
             in Inr \<lparr>tx_inputs = inputs, tx_outputs = outputs, tx_extAmount = amountBN,
                     tx_fee = feeBN,
                     tx_publicAmount = publicAmountForCircuit amountBN feeBN\<rparr>))))"

section \<open>Retrying (\<^verbatim>\<open>withdraw\<close>, \<^verbatim>\<open>parseTransactionError\<close> in \<^verbatim>\<open>utils/validation.ts\<close>)\<close>

definition toLowerCase :: "string \<Rightarrow> string" where
  "toLowerCase s =
     map (\<lambda>c. if 65 \<le> (of_char c :: nat) \<and> (of_char c :: nat) \<le> 90
              then char_of ((of_char c :: nat) + 32) else c) s"

fun starts_with :: "string \<Rightarrow> string \<Rightarrow> bool" where
  "starts_with s [] = True"
| "starts_with [] (c # cs) = False"
| "starts_with (x # xs) (c # cs) = (x = c \<and> starts_with xs cs)"

fun includes_str :: "string \<Rightarrow> string \<Rightarrow> bool" where
  "includes_str [] t = (t = [])"
| "includes_str (x # xs) t = (starts_with (x # xs) t \<or> includes_str xs t)"

definition isRootMismatch :: "string \<Rightarrow> bool" where
  "isRootMismatch errorString =
     (let errorLower = toLowerCase errorString
      in includes_str errorLower ''invalid root'' \<or> includes_str errorLower ''root mismatch''
         \<or> includes_str errorLower ''merkle root'')"

definition isInsufficientFunds :: "string \<Rightarrow> bool" where
  "isInsufficientFunds errorString =
     (let errorLower = toLowerCase errorString
      in includes_str errorLower ''insufficient funds'' \<or> includes_str errorLower ''insufficient lamports''
         \<or> includes_str errorLower ''account not found'')"

definition isNullifierAlreadyUsed :: "string \<Rightarrow> bool" where
  "isNullifierAlreadyUsed errorString =
     (let errorLower = toLowerCase errorString
      in includes_str errorLower ''nullifier''
         \<and> (includes_str errorLower ''already'' \<or> includes_str errorLower ''used''
              \<or> includes_str errorLower ''exists''))"

text \<open>
  One call of \<^verbatim>\<open>withdraw\<close> makes one attempt. What the attempt meets is given by the
  environment: it goes through, or the root re-queried before submission differs from
  the root of the witness, or something inside the \<^verbatim>\<open>try\<close> throws an error with a
  message (a failed lock acquisition, a relayer error, a failed root query, ...).
\<close>

datatype attempt = Succeeds | RootChanged | Throws string

datatype outcome = Done | Failed string

definition ROOT_VERIFICATION_FAILED :: string where
  "ROOT_VERIFICATION_FAILED =
     ''Merkle root changed during transaction preparation. This usually means the tree was updated by another transaction.''"

definition NULLIFIER_ALREADY_USED :: string where
  "NULLIFIER_ALREADY_USED =
     ''One or more UTXOs have already been spent. Please refresh your balance.''"

definition INSUFFICIENT_FUNDS :: string where
  "INSUFFICIENT_FUNDS =
     ''Insufficient funds to complete the withdrawal. Check your balance and try again.''"

text \<open>
  The \<^verbatim>\<open>catch\<close> block of \<^verbatim>\<open>withdraw\<close>, with the recursive call
  \<^verbatim>\<open>withdraw(..., retryCount + 1, ...)\<close> as the argument \<open>retry\<close>. A run gives its outcome, the
  attempts made in order, each with the \<^verbatim>\<open>retryCount\<close> it ran with, and the number of
  attempts the environment has seen.
\<close>

type_synonym run = "(outcome \<times> (nat \<times> attempt) list \<times> nat) option"

definition and_then :: "(nat \<times> attempt) list \<Rightarrow> run \<Rightarrow> run" where
  "and_then tr r = (case r of None \<Rightarrow> None | Some (res, tr', n) \<Rightarrow> Some (res, tr @ tr', n))"

definition catch_block ::
  "nat \<Rightarrow> nat \<Rightarrow> string \<Rightarrow> (nat \<times> attempt) list \<Rightarrow> nat \<Rightarrow> run \<Rightarrow> run" where
  "catch_block maxRetries retryCount errorString tr n retry =
     (if isRootMismatch errorString \<and> retryCount < maxRetries then and_then tr retry
      else if isNullifierAlreadyUsed errorString then Some (Failed NULLIFIER_ALREADY_USED, tr, n)
      else if isInsufficientFunds errorString then Some (Failed INSUFFICIENT_FUNDS, tr, n)
      else if retryCount < maxRetries then and_then tr retry
      else Some (Failed errorString, tr, n))"

text \<open>
  \<^verbatim>\<open>withdraw\<close> as a recursion. The source recurses without a bound when the root keeps
  changing, so the depth of the recursion is fuel: \<open>None\<close> means the fuel ran out. When
  the root has changed the source calls itself with \<^verbatim>\<open>retryCount\<close> as it is, inside the
  \<^verbatim>\<open>try\<close> of the root check: an error of that inner call is rethrown as
  \<^verbatim>\<open>ROOT_VERIFICATION_FAILED\<close> and lands in the \<^verbatim>\<open>catch\<close> block of this call.
\<close>

primrec withdraw_run :: "nat \<Rightarrow> (nat \<Rightarrow> attempt) \<Rightarrow> nat \<Rightarrow> nat \<Rightarrow> nat \<Rightarrow> run" where
  "withdraw_run 0 env maxRetries retryCount n = None"
| "withdraw_run (Suc fuel) env maxRetries retryCount n =
     (case env n of
        Succeeds \<Rightarrow> Some (Done, [(retryCount, Succeeds)], Suc n)
      | Throws errorString \<Rightarrow>
          catch_block maxRetries retryCount errorString [(retryCount, Throws errorString)] (Suc n)
            (withdraw_run fuel env maxRetries (Suc retryCount) (Suc n))
      | RootChanged \<Rightarrow>
          (case withdraw_run fuel env maxRetries retryCount (Suc n) of
             None \<Rightarrow> None
           | Some (Done, tr, n') \<Rightarrow> Some (Done, (retryCount, RootChanged) # tr, n')
           | Some (Failed e, tr, n') \<Rightarrow>
               catch_block maxRetries retryCount ROOT_VERIFICATION_FAILED
                 ((retryCount, RootChanged) # tr) n'
                 (withdraw_run fuel env maxRetries (Suc retryCount) n')))"

text \<open>In a list of attempts: every attempt after a changed root runs with the same count.\<close>

fun restarts_keep_count :: "(nat \<times> attempt) list \<Rightarrow> bool" where
  "restarts_keep_count ((c, a) # (c', a') # rest) =
     ((if a = RootChanged then c' = c else True) \<and> restarts_keep_count ((c', a') # rest))"
| "restarts_keep_count _ = True"

definition root_race_restarts :: "(nat \<times> attempt) list \<Rightarrow> nat" where
  "root_race_restarts tr = length (filter (\<lambda>(c, a). a = RootChanged) tr)"

text \<open>
  An environment given by a list of what the attempts meet, in order; attempts after the
  list go through. The message is that of the error \<^verbatim>\<open>withdraw\<close> throws when the lock on
  the selected notes is not acquired.
\<close>

definition script :: "attempt list \<Rightarrow> nat \<Rightarrow> attempt" where
  "script as n = (if n < length as then as ! n else Succeeds)"

definition LOCKS_NOT_ACQUIRED :: string where
  "LOCKS_NOT_ACQUIRED =
     ''Could not acquire locks on UTXOs. They may be in use by another operation.''"

section \<open>Concrete inputs\<close>

text \<open>
  The mints of \<^verbatim>\<open>SUPPORTED_TOKENS\<close> (\<^verbatim>\<open>utils/constants\<close>), as the 32 bytes their base58
  strings stand for: USDC \<^verbatim>\<open>EPjFWdd5AufqSSqeM2qN1xzybapC8G4wEGGkZwyTDt1v\<close> and hSOL
  \<^verbatim>\<open>he1iusmfkpAdwvxLNGV8Y1iSbj4rUy6yMhEA3fotn9A\<close>.
\<close>

definition USDC_MINT_bytes :: "byte list" where
  "USDC_MINT_bytes = [198, 250, 122, 243, 190, 219, 173, 58, 61, 101, 243, 106, 171, 201, 116, 49,
     177, 187, 228, 194, 210, 246, 224, 228, 124, 166, 2, 3, 69, 47, 93, 97]"

definition HSOL_MINT_bytes :: "byte list" where
  "HSOL_MINT_bytes = [10, 105, 21, 29, 166, 80, 215, 176, 22, 170, 31, 168, 230, 7, 185, 21,
     144, 181, 161, 90, 8, 11, 199, 226, 32, 32, 243, 187, 130, 236, 221, 197]"

text \<open>
  An ext-data tuple of a withdrawal and a proof, with stand-ins for SHA-256 and for the
  base58 parser, which the examples do not depend on.
\<close>

definition sha_A :: "byte list \<Rightarrow> 256 word" where
  "sha_A bs = word_of_nat (length bs)"

definition pk_A :: "string \<Rightarrow> byte list option" where
  "pk_A s = None"

definition ext_A :: ext_data where
  "ext_A = \<lparr>recipient = replicate 32 7, extAmount = - 4985000,
            encryptedOutput1 = Some (JsBytes [1, 2, 3]), encryptedOutput2 = Some (JsBytes [4, 5]),
            fee = 15000, feeRecipient = replicate 32 9, mintAddress = MintKey SOL_MINT_bytes\<rparr>"

definition proof_A :: proof_to_submit where
  "proof_A = \<lparr>proofA = replicate 64 1, proofB = replicate 128 2, proofC = replicate 64 3,
              root = replicate 32 4, publicAmount = replicate 32 5, extDataHash = replicate 32 6,
              inputNullifiers = (replicate 32 7, replicate 32 8),
              outputCommitments = (replicate 32 9, replicate 32 10)\<rparr>"




text \<open>
  A holder's key pair, the random draws of one transaction, and notes of 0.01, 0.02 and
  0.005 SOL (in lamports).
\<close>

definition kp_A :: keypair where
  "kp_A = \<lparr>privkey = ''7'', pubkey = ''11''\<rparr>"

definition rnd_A :: randomness where
  "rnd_A = \<lparr>dummy_keypair1 = \<lparr>privkey = ''13'', pubkey = ''17''\<rparr>,
            dummy_keypair2 = \<lparr>privkey = ''19'', pubkey = ''23''\<rparr>,
            dummy_draw1 = 1, dummy_draw2 = 2, output_draw1 = 3, output_draw2 = 4\<rparr>"

definition note_10M :: utxo where
  "note_10M = new_Utxo 10000000 kp_A 123456789 3 SOL_MINT"

definition note_20M :: utxo where
  "note_20M = new_Utxo 20000000 kp_A 223456789 4 SOL_MINT"

definition note_5M :: utxo where
  "note_5M = new_Utxo 5000000 kp_A 323456789 5 SOL_MINT"

text \<open>The balance equation of the circuit.\<close>

definition balanced :: "tx_plan \<Rightarrow> bool" where
  "balanced tx =
     ((sum_list (inAmount tx) + tx_publicAmount tx) mod FIELD_SIZE = sum_list (outAmount tx))"

text \<open>
  Notes of 20 and 5 USDC (base units), and the transactions the builders give for the
  three scenarios: a fresh deposit of 10000000 units, the same deposit on top of the two
  USDC notes, and a withdrawal of 0.005 SOL from the note of 0.01 SOL.
\<close>

definition usdc_20M :: utxo where
  "usdc_20M = new_Utxo 20000000 kp_A 223456789 4 (mintAddressNumeric USDC_MINT_bytes)"

definition usdc_5M :: utxo where
  "usdc_5M = new_Utxo 5000000 kp_A 323456789 5 (mintAddressNumeric USDC_MINT_bytes)"

definition tx_fresh_deposit :: tx_plan where
  "tx_fresh_deposit =
     \<lparr>tx_inputs =
        [new_Utxo 0 (dummy_keypair1 rnd_A) 100000001 0 (mintAddressNumeric USDC_MINT_bytes),
         new_Utxo 0 (dummy_keypair2 rnd_A) 100000002 0 (mintAddressNumeric USDC_MINT_bytes)],
      tx_outputs =
        [new_Utxo 9970000 kp_A 100000003 40 (mintAddressNumeric USDC_MINT_bytes),
         new_Utxo 0 kp_A 100000004 41 (mintAddressNumeric USDC_MINT_bytes)],
      tx_extAmount = 10000000, tx_fee = 30000, tx_publicAmount = 9970000\<rparr>"

definition tx_consolidating_deposit :: tx_plan where
  "tx_consolidating_deposit =
     \<lparr>tx_inputs = [usdc_20M, usdc_5M],
      tx_outputs =
        [new_Utxo 34970000 kp_A 100000003 40 (mintAddressNumeric USDC_MINT_bytes),
         new_Utxo 0 kp_A 100000004 41 (mintAddressNumeric USDC_MINT_bytes)],
      tx_extAmount = 10000000, tx_fee = 30000, tx_publicAmount = 9970000\<rparr>"

definition tx_withdrawal :: tx_plan where
  "tx_withdrawal =
     \<lparr>tx_inputs =
        [note_10M\<lparr>index := 5\<rparr>, new_Utxo 0 (dummy_keypair1 rnd_A) 100000001 0 SOL_MINT],
      tx_outputs =
        [new_Utxo 5000000 kp_A 100000003 40 SOL_MINT, new_Utxo 0 kp_A 100000004 41 SOL_MINT],
      tx_extAmount = - 4985000, tx_fee = 15000,
      tx_publicAmount = FIELD_SIZE - 5000000\<rparr>"

text \<open>The fee \<^verbatim>\<open>withdraw\<close> computes from the requested amount.\<close>

definition withdraw_fee :: "real \<Rightarrow> int" where
  "withdraw_fee amount_in_sol = \<lfloor>amount_in_sol * LAMPORTS_PER_SOL * (WITHDRAW_FEE_RATE / 100)\<rfloor>"

text \<open>
  A scan over one encrypted output that decrypts to the note of 0.01 SOL, whose plaintext
  carries index 3 while the tree holds its commitment at leaf 9.
\<close>

definition dec_A :: "string \<Rightarrow> utxo option" where
  "dec_A encryptedOutput = (if encryptedOutput = ''c1'' then Some note_10M else None)"

definition pda_A :: "byte list list \<Rightarrow> byte list" where
  "pda_A seeds = concat seeds"

definition chain_unspent :: connection where
  "chain_unspent = \<lparr>accounts = (\<lambda>a. False), rpc_throws = (\<lambda>b. False)\<rparr>"

definition chain_spent :: connection where
  "chain_spent = \<lparr>accounts = (\<lambda>a. True), rpc_throws = (\<lambda>b. False)\<rparr>"

definition chain_spent_rpc_down :: connection where
  "chain_spent_rpc_down = \<lparr>accounts = (\<lambda>a. True), rpc_throws = (\<lambda>b. True)\<rparr>"

definition H_A :: poseidon where
  "H_A xs = 0"

definition proofs_up :: "string \<Rightarrow> proof_reply" where
  "proofs_up = service_reply (\<lambda>c. Some 9) (\<lambda>c. False)"

definition proofs_down :: "string \<Rightarrow> proof_reply" where
  "proofs_down = service_reply (\<lambda>c. Some 9) (\<lambda>c. True)"





definition one_range :: "fetched_batch list" where
  "one_range = [\<lparr>encryptedOutputs = [''c1''], hashMore = False\<rparr>]"

section \<open>Properties\<close>

subsection \<open>Bytes and numbers\<close>

lemma bindE_Inr_iff: "bindE r f = Inr v \<longleftrightarrow> (\<exists>x. r = Inr x \<and> f x = Inr v)"
  by (cases r) (simp_all add: bindE_def)

lemma bindE_Inr [simp]: "bindE (Inr x) f = f x"
  by (simp add: bindE_def)

lemma bindE_Inl [simp]: "bindE (Inl e) f = Inl e"
  by (simp add: bindE_def)

lemma le_bytes_numeral:
  "le_bytes (numeral k) n = word_of_nat (n mod 256) # le_bytes (pred_numeral k) (n div 256)"
proof -
  have eq: "(numeral k :: nat) = Suc (pred_numeral k)" by (rule numeral_eq_Suc)
  show ?thesis by (simp only: eq le_bytes.simps)
qed

lemma length_le_bytes: "length (le_bytes k n) = k"
  by (induction k arbitrary: n) auto

lemma length_digest_bytes: "length (digest_bytes w) = 32"
  by (simp add: digest_bytes_def length_le_bytes)

subsection \<open>The ext-data hash and the wire format\<close>

lemma extAmount_field_neg:
  assumes "0 < x" "x < 2 ^ 53"
  shows "extAmount_field (- x) = Inr (le_bytes 8 (nat (2 ^ 64 - x)))"
  using assms
  by (simp add: extAmount_field_def bn_toNumber_def bindE_def writeU64_def bn_toArrayLike_le_def)

lemma extAmount_wire_neg:
  assumes "0 < x" "x < 2 ^ 63"
  shows "extAmount_wire (- x) = Inr (le_bytes 8 (nat (2 ^ 64 - x)))"
proof -
  have m: "nat x mod 2 ^ 64 = nat x" using assms by (simp add: nat_less_iff)
  have d: "nat x div 2 ^ 78 = 0" using assms by (simp add: nat_less_iff)
  have "int (bn_inotn 64 (nat \<bar>- x\<bar>)) + 1 = 2 ^ 64 - x"
    using assms m d by (simp add: bn_inotn_def nat_less_iff of_nat_diff)
  moreover have "nat (2 ^ 64 - x) < 256 ^ 8" using assms by (simp add: nat_less_iff)
  ultimately show ?thesis using assms
    by (simp add: extAmount_wire_def bn_toTwos_def bn_toArrayLike_le_def)
qed

lemma i64_mod_neg:
  assumes "0 < x" "x < 2 ^ 63"
  shows "(- x) mod 2 ^ 64 = 2 ^ 64 - (x::int)"
proof -
  have "(- x) mod 2 ^ 64 = (- x + 2 ^ 64) mod 2 ^ 64" by simp
  also have "\<dots> = - x + 2 ^ 64"
    by (rule mod_pos_pos_trivial) (use assms in simp_all)
  finally show ?thesis by simp
qed

lemma extAmount_field_ok:
  assumes "\<bar>x\<bar> < 2 ^ 53"
  shows "extAmount_field x = Inr (le_bytes 8 (nat (x mod 2 ^ 64)))"
proof (cases "x < 0")
  case True
  then have "0 < - x" "- x < 2 ^ 53" "- x < 2 ^ 63" using assms by simp_all
  with extAmount_field_neg [of "- x"] i64_mod_neg [of "- x"] show ?thesis by simp
next
  case False
  then have "x mod 2 ^ 64 = x" using assms by simp
  with False assms show ?thesis
    by (simp add: extAmount_field_def bn_toNumber_def bindE_def writeU64_def bn_toArrayLike_le_def
        nat_less_iff)
qed

lemma writeU64_ok: "\<bar>f\<bar> < 2 ^ 64 \<Longrightarrow> writeU64 f = Inr (le_bytes 8 (nat \<bar>f\<bar>))"
  by (simp add: writeU64_def bn_toArrayLike_le_def nat_less_iff)

lemma ext_data_preimage_ok:
  assumes "mintAddressBytes pk u (ext_data.mintAddress e) = Inr mb"
    and "\<bar>extAmount e\<bar> < 2 ^ 53" and "\<bar>fee e\<bar> < 2 ^ 64"
    and "length (encrypted_output_bytes (encryptedOutput1 e)) < 2 ^ 32"
    and "length (encrypted_output_bytes (encryptedOutput2 e)) < 2 ^ 32"
  shows "ext_data_preimage pk e u =
     Inr (recipient e @ le_bytes 8 (nat (extAmount e mod 2 ^ 64))
          @ le_bytes 4 (length (encrypted_output_bytes (encryptedOutput1 e)))
          @ encrypted_output_bytes (encryptedOutput1 e)
          @ le_bytes 4 (length (encrypted_output_bytes (encryptedOutput2 e)))
          @ encrypted_output_bytes (encryptedOutput2 e)
          @ le_bytes 8 (nat \<bar>fee e\<bar>) @ feeRecipient e @ mb)"
  using assms
  by (simp add: ext_data_preimage_def extAmount_field_ok writeU64_ok writeU32_def Let_def)

lemma absent_output_bytes:
  "encrypted_output_bytes None = []" "encrypted_output_bytes (Some (JsBytes [])) = []"
  "encrypted_output_bytes (Some (JsString [])) = []"
  by (simp_all add: encrypted_output_bytes_def truthy_def buffer_from_def)

lemma le_bytes_4_0: "le_bytes 4 0 = [0, 0, 0, 0]"
  by (simp add: le_bytes_numeral)

lemma vec_u8_wire_ok:
  "length b < 2 ^ 32 \<Longrightarrow> vec_u8_wire (Some (JsBytes b)) = Inr (le_bytes 4 (length b) @ b)"
proof -
  assume l: "length b < 2 ^ 32"
  then have "real (length b) < 2 ^ 32" by (metis of_nat_less_iff of_nat_numeral of_nat_power)
  then have "real (length b) < 2 ^ 53" by simp
  then have "bn_of_number (real (length b)) = Inr (int (length b))"
    by (simp add: bn_of_number_def)
  with l show ?thesis
    by (simp add: vec_u8_wire_def bn_toArrayLike_le_def)
qed

lemma serializeProofAndExtData_neg:
  assumes "0 < x" and "x < 2 ^ 63" and "extAmount e = - x" and "\<bar>fee e\<bar> < 2 ^ 64"
    and "encryptedOutput1 e = Some (JsBytes b1)" and "encryptedOutput2 e = Some (JsBytes b2)"
    and "length b1 < 2 ^ 32" and "length b2 < 2 ^ 32"
  shows "serializeProofAndExtData proof e d =
     Inr (d @ proofA proof @ proofB proof @ proofC proof @ root proof
          @ publicAmount proof @ extDataHash proof
          @ fst (inputNullifiers proof) @ snd (inputNullifiers proof)
          @ fst (outputCommitments proof) @ snd (outputCommitments proof)
          @ le_bytes 8 (nat (2 ^ 64 - x)) @ le_bytes 8 (nat \<bar>fee e\<bar>)
          @ (le_bytes 4 (length b1) @ b1) @ (le_bytes 4 (length b2) @ b2))"
  using assms
  by (simp add: serializeProofAndExtData_def extAmount_wire_neg vec_u8_wire_ok
      bn_toArrayLike_le_def nat_less_iff)

lemma extAmount_field_big:
  "2 ^ 53 \<le> \<bar>x\<bar> \<Longrightarrow> extAmount_field x = Inl BNAssertion"
  by (simp add: extAmount_field_def bn_toNumber_def)

lemma ext_data_preimage_big:
  assumes "mintAddressBytes pk u (ext_data.mintAddress e) = Inr mb" and "2 ^ 53 \<le> \<bar>extAmount e\<bar>"
  shows "ext_data_preimage pk e u = Inl BNAssertion"
  using assms by (simp add: ext_data_preimage_def extAmount_field_big Let_def)

text \<open>
  C8 (as the code has it). For \<open>ext_amount = -x\<close> with \<open>0 < x < 2^63\<close> the on-wire payload
  carries the 8 little-endian bytes of \<open>2^64 - x\<close>. The hash preimage carries them for
  \<open>x < 2^53\<close>; from \<open>2^53\<close> on the hash stops in the 53-bit assertion of
  \<^verbatim>\<open>toNumber\<close>, which the source uses as its sign test, and there is no preimage.
\<close>

theorem ext_amount_twos_complement:
  assumes "0 < x" and "x < 2 ^ 63" and "extAmount e = - x" and "\<bar>fee e\<bar> < 2 ^ 64"
  shows
    "(\<forall>b1 b2. encryptedOutput1 e = Some (JsBytes b1) \<and> encryptedOutput2 e = Some (JsBytes b2)
          \<and> length b1 < 2 ^ 32 \<and> length b2 < 2 ^ 32 \<longrightarrow>
        serializeProofAndExtData proof e d =
          Inr (d @ proofA proof @ proofB proof @ proofC proof @ root proof
               @ publicAmount proof @ extDataHash proof
               @ fst (inputNullifiers proof) @ snd (inputNullifiers proof)
               @ fst (outputCommitments proof) @ snd (outputCommitments proof)
               @ le_bytes 8 (nat (2 ^ 64 - x)) @ le_bytes 8 (nat \<bar>fee e\<bar>)
               @ (le_bytes 4 (length b1) @ b1) @ (le_bytes 4 (length b2) @ b2)))
     \<and> (\<forall>mb. mintAddressBytes pk u (ext_data.mintAddress e) = Inr mb
          \<and> length (encrypted_output_bytes (encryptedOutput1 e)) < 2 ^ 32
          \<and> length (encrypted_output_bytes (encryptedOutput2 e)) < 2 ^ 32 \<longrightarrow>
        (x < 2 ^ 53 \<longrightarrow>
           ext_data_preimage pk e u =
             Inr (recipient e @ le_bytes 8 (nat (2 ^ 64 - x))
                  @ le_bytes 4 (length (encrypted_output_bytes (encryptedOutput1 e)))
                  @ encrypted_output_bytes (encryptedOutput1 e)
                  @ le_bytes 4 (length (encrypted_output_bytes (encryptedOutput2 e)))
                  @ encrypted_output_bytes (encryptedOutput2 e)
                  @ le_bytes 8 (nat \<bar>fee e\<bar>) @ feeRecipient e @ mb))
        \<and> (2 ^ 53 \<le> x \<longrightarrow>
           ext_data_preimage pk e u = Inl BNAssertion
           \<and> getExtDataHash sha256 pk e u = Inl BNAssertion))"
proof (intro conjI allI impI)
  fix b1 b2
  assume "encryptedOutput1 e = Some (JsBytes b1) \<and> encryptedOutput2 e = Some (JsBytes b2)
          \<and> length b1 < 2 ^ 32 \<and> length b2 < 2 ^ 32"
  with assms show "serializeProofAndExtData proof e d =
          Inr (d @ proofA proof @ proofB proof @ proofC proof @ root proof
               @ publicAmount proof @ extDataHash proof
               @ fst (inputNullifiers proof) @ snd (inputNullifiers proof)
               @ fst (outputCommitments proof) @ snd (outputCommitments proof)
               @ le_bytes 8 (nat (2 ^ 64 - x)) @ le_bytes 8 (nat \<bar>fee e\<bar>)
               @ (le_bytes 4 (length b1) @ b1) @ (le_bytes 4 (length b2) @ b2))"
    by (intro serializeProofAndExtData_neg) simp_all
next
  fix mb
  assume h: "mintAddressBytes pk u (ext_data.mintAddress e) = Inr mb
          \<and> length (encrypted_output_bytes (encryptedOutput1 e)) < 2 ^ 32
          \<and> length (encrypted_output_bytes (encryptedOutput2 e)) < 2 ^ 32"
  {
    assume lt: "x < 2 ^ 53"
    have m: "extAmount e mod 2 ^ 64 = 2 ^ 64 - x"
      using assms i64_mod_neg [of x] by simp
    have a: "\<bar>extAmount e\<bar> < 2 ^ 53" using assms lt by simp
    show "ext_data_preimage pk e u =
             Inr (recipient e @ le_bytes 8 (nat (2 ^ 64 - x))
                  @ le_bytes 4 (length (encrypted_output_bytes (encryptedOutput1 e)))
                  @ encrypted_output_bytes (encryptedOutput1 e)
                  @ le_bytes 4 (length (encrypted_output_bytes (encryptedOutput2 e)))
                  @ encrypted_output_bytes (encryptedOutput2 e)
                  @ le_bytes 8 (nat \<bar>fee e\<bar>) @ feeRecipient e @ mb)"
      using ext_data_preimage_ok [of pk u e mb] h a assms(4) m by simp
  }
  {
    assume ge: "2 ^ 53 \<le> x"
    then have a: "2 ^ 53 \<le> \<bar>extAmount e\<bar>" using assms by simp
    from h a show p: "ext_data_preimage pk e u = Inl BNAssertion"
      by (intro ext_data_preimage_big [of pk u e mb]) simp_all
    then show "getExtDataHash sha256 pk e u = Inl BNAssertion"
      by (simp add: getExtDataHash_def)
  }
qed

lemma ext_A_fields:
  "recipient ext_A = replicate 32 7" "extAmount ext_A = - 4985000" "fee ext_A = 15000"
  "encryptedOutput1 ext_A = Some (JsBytes [1, 2, 3])"
  "encryptedOutput2 ext_A = Some (JsBytes [4, 5])" "feeRecipient ext_A = replicate 32 9"
  "ext_data.mintAddress ext_A = MintKey SOL_MINT_bytes"
  by (simp_all add: ext_A_def)

lemma ext_A_mint: "mintAddressBytes pk_A False (ext_data.mintAddress ext_A) = Inr SOL_MINT_bytes"
  by (simp add: ext_A_fields mintAddressBytes_def mintAddressBytes_publickey_def)

theorem ext_amount_twos_complement_witness:
  "serializeProofAndExtData proof_A ext_A TRANSACT_IX_DISCRIMINATOR =
     Inr (TRANSACT_IX_DISCRIMINATOR @ proofA proof_A @ proofB proof_A @ proofC proof_A
          @ root proof_A @ publicAmount proof_A @ extDataHash proof_A
          @ fst (inputNullifiers proof_A) @ snd (inputNullifiers proof_A)
          @ fst (outputCommitments proof_A) @ snd (outputCommitments proof_A)
          @ [88, 239, 179, 255, 255, 255, 255, 255] @ [152, 58, 0, 0, 0, 0, 0, 0]
          @ [3, 0, 0, 0, 1, 2, 3] @ [2, 0, 0, 0, 4, 5])
   \<and> ext_data_preimage pk_A ext_A False =
     Inr (replicate 32 7 @ [88, 239, 179, 255, 255, 255, 255, 255]
          @ [3, 0, 0, 0, 1, 2, 3] @ [2, 0, 0, 0, 4, 5]
          @ [152, 58, 0, 0, 0, 0, 0, 0] @ replicate 32 9 @ SOL_MINT_bytes)"
  using ext_amount_twos_complement [of 4985000 ext_A proof_A TRANSACT_IX_DISCRIMINATOR
      pk_A False sha_A] ext_A_mint
  by (simp add: ext_A_fields encrypted_output_bytes_def truthy_def buffer_from_def
      le_bytes_numeral)

text \<open>
  C8 as stated fails from \<open>x = 2^53\<close> on: the hash of an ext-data tuple with
  \<open>ext_amount = -2^53\<close> stops in the assertion, while the wire payload of the same value
  is \<open>00 00 00 00 00 00 e0 ff\<close>.
\<close>

theorem ext_amount_hash_fails_at_2_53:
  "getExtDataHash sha_A pk_A
     \<lparr>recipient = replicate 32 0, extAmount = - 9007199254740992,
      encryptedOutput1 = None, encryptedOutput2 = None, fee = 0,
      feeRecipient = replicate 32 0, mintAddress = MintKey SOL_MINT_bytes\<rparr> False
     = Inl BNAssertion
   \<and> extAmount_wire (- 9007199254740992) = Inr [0, 0, 0, 0, 0, 0, 224, 255]"
  by (simp add: getExtDataHash_def ext_data_preimage_def mintAddressBytes_def
      mintAddressBytes_publickey_def extAmount_field_def bn_toNumber_def bindE_def
      extAmount_wire_def bn_toArrayLike_le_def bn_toTwos_def bn_inotn_def le_bytes_numeral)

text \<open>
  Leaving a ciphertext out gives the same result, digest or error, as passing the empty
  byte array or the empty string.
\<close>

lemma ext_hash_absent_same_result:
  "getExtDataHash sha256 pk (e\<lparr>encryptedOutput1 := None\<rparr>) u
     = getExtDataHash sha256 pk (e\<lparr>encryptedOutput1 := Some (JsBytes [])\<rparr>) u
   \<and> getExtDataHash sha256 pk (e\<lparr>encryptedOutput1 := None\<rparr>) u
     = getExtDataHash sha256 pk (e\<lparr>encryptedOutput1 := Some (JsString [])\<rparr>) u
   \<and> getExtDataHash sha256 pk (e\<lparr>encryptedOutput2 := None\<rparr>) u
     = getExtDataHash sha256 pk (e\<lparr>encryptedOutput2 := Some (JsBytes [])\<rparr>) u
   \<and> getExtDataHash sha256 pk (e\<lparr>encryptedOutput2 := None\<rparr>) u
     = getExtDataHash sha256 pk (e\<lparr>encryptedOutput2 := Some (JsString [])\<rparr>) u"
  by (simp add: getExtDataHash_def ext_data_preimage_def encrypted_output_bytes_def truthy_def
      buffer_from_def)

text \<open>
  C10. Where the other fields can be serialized (the asset tag resolves, \<open>ext_amount\<close> is
  within 53 bits, the fee within 64, the other ciphertext shorter than \<open>2^32\<close>), the hash
  with \<^verbatim>\<open>encryptedOutput1\<close> (or \<^verbatim>\<open>encryptedOutput2\<close>) left out is a 32-byte digest: the
  digest of the preimage in which that ciphertext is the length \<open>00 00 00 00\<close> and no
  bytes. Passing the empty byte array or the empty string gives that same digest.
\<close>

theorem ext_hash_absent_is_empty:
  assumes "mintAddressBytes pk u (ext_data.mintAddress e) = Inr mb"
    and "\<bar>extAmount e\<bar> < 2 ^ 53" and "\<bar>fee e\<bar> < 2 ^ 64"
    and "length (encrypted_output_bytes (encryptedOutput1 e)) < 2 ^ 32"
    and "length (encrypted_output_bytes (encryptedOutput2 e)) < 2 ^ 32"
  shows
    "(let eo1 = encrypted_output_bytes (encryptedOutput1 e);
          eo2 = encrypted_output_bytes (encryptedOutput2 e);
          front = recipient e @ le_bytes 8 (nat (extAmount e mod 2 ^ 64));
          back = le_bytes 8 (nat \<bar>fee e\<bar>) @ feeRecipient e @ mb;
          p1 = front @ [0, 0, 0, 0] @ le_bytes 4 (length eo2) @ eo2 @ back;
          p2 = front @ le_bytes 4 (length eo1) @ eo1 @ [0, 0, 0, 0] @ back
      in ext_data_preimage pk (e\<lparr>encryptedOutput1 := None\<rparr>) u = Inr p1
       \<and> getExtDataHash sha256 pk (e\<lparr>encryptedOutput1 := None\<rparr>) u
            = Inr (digest_bytes (sha256 p1))
       \<and> getExtDataHash sha256 pk (e\<lparr>encryptedOutput1 := Some (JsBytes [])\<rparr>) u
            = Inr (digest_bytes (sha256 p1))
       \<and> getExtDataHash sha256 pk (e\<lparr>encryptedOutput1 := Some (JsString [])\<rparr>) u
            = Inr (digest_bytes (sha256 p1))
       \<and> length (digest_bytes (sha256 p1)) = 32
       \<and> ext_data_preimage pk (e\<lparr>encryptedOutput2 := None\<rparr>) u = Inr p2
       \<and> getExtDataHash sha256 pk (e\<lparr>encryptedOutput2 := None\<rparr>) u
            = Inr (digest_bytes (sha256 p2))
       \<and> getExtDataHash sha256 pk (e\<lparr>encryptedOutput2 := Some (JsBytes [])\<rparr>) u
            = Inr (digest_bytes (sha256 p2))
       \<and> getExtDataHash sha256 pk (e\<lparr>encryptedOutput2 := Some (JsString [])\<rparr>) u
            = Inr (digest_bytes (sha256 p2))
       \<and> length (digest_bytes (sha256 p2)) = 32)"
proof -
  have a: "ext_data_preimage pk (e\<lparr>encryptedOutput1 := v\<rparr>) u =
      Inr (recipient e @ le_bytes 8 (nat (extAmount e mod 2 ^ 64)) @ [0, 0, 0, 0]
           @ le_bytes 4 (length (encrypted_output_bytes (encryptedOutput2 e)))
           @ encrypted_output_bytes (encryptedOutput2 e)
           @ le_bytes 8 (nat \<bar>fee e\<bar>) @ feeRecipient e @ mb)"
    if "encrypted_output_bytes v = []" for v
    using ext_data_preimage_ok [of pk u "e\<lparr>encryptedOutput1 := v\<rparr>" mb] assms that
    by (simp add: le_bytes_4_0)
  have b: "ext_data_preimage pk (e\<lparr>encryptedOutput2 := v\<rparr>) u =
      Inr (recipient e @ le_bytes 8 (nat (extAmount e mod 2 ^ 64))
           @ le_bytes 4 (length (encrypted_output_bytes (encryptedOutput1 e)))
           @ encrypted_output_bytes (encryptedOutput1 e) @ [0, 0, 0, 0]
           @ le_bytes 8 (nat \<bar>fee e\<bar>) @ feeRecipient e @ mb)"
    if "encrypted_output_bytes v = []" for v
    using ext_data_preimage_ok [of pk u "e\<lparr>encryptedOutput2 := v\<rparr>" mb] assms that
    by (simp add: le_bytes_4_0)
  show ?thesis
    by (simp add: Let_def getExtDataHash_def a b absent_output_bytes length_digest_bytes)
qed

theorem ext_hash_absent_is_empty_witness:
  "getExtDataHash sha_A pk_A (ext_A\<lparr>encryptedOutput1 := None\<rparr>) False
     = Inr (digest_bytes (sha_A (replicate 32 7 @ [88, 239, 179, 255, 255, 255, 255, 255]
          @ [0, 0, 0, 0] @ [2, 0, 0, 0, 4, 5]
          @ [152, 58, 0, 0, 0, 0, 0, 0] @ replicate 32 9 @ SOL_MINT_bytes)))
   \<and> getExtDataHash sha_A pk_A (ext_A\<lparr>encryptedOutput1 := Some (JsBytes [])\<rparr>) False
     = getExtDataHash sha_A pk_A (ext_A\<lparr>encryptedOutput1 := None\<rparr>) False
   \<and> getExtDataHash sha_A pk_A (ext_A\<lparr>encryptedOutput2 := None\<rparr>) False
     = Inr (digest_bytes (sha_A (replicate 32 7 @ [88, 239, 179, 255, 255, 255, 255, 255]
          @ [3, 0, 0, 0, 1, 2, 3] @ [0, 0, 0, 0]
          @ [152, 58, 0, 0, 0, 0, 0, 0] @ replicate 32 9 @ SOL_MINT_bytes)))
   \<and> getExtDataHash sha_A pk_A (ext_A\<lparr>encryptedOutput2 := Some (JsBytes [])\<rparr>) False
     = getExtDataHash sha_A pk_A (ext_A\<lparr>encryptedOutput2 := None\<rparr>) False"
  using ext_hash_absent_is_empty [of pk_A False ext_A SOL_MINT_bytes sha_A] ext_A_mint
  by (simp add: ext_A_fields encrypted_output_bytes_def truthy_def buffer_from_def
      le_bytes_numeral Let_def)

subsection \<open>Note encryption\<close>













subsection \<open>The asset tag of the ext-data hash\<close>

lemma be_nat_snoc: "be_nat (xs @ [x]) = be_nat xs * 256 + unat x"
  by (simp add: be_nat_def)

lemma be_nat_bound: "be_nat bs < 256 ^ length bs"
proof (induction bs rule: rev_induct)
  case Nil
  then show ?case by (simp add: be_nat_def)
next
  case (snoc x xs)
  have "unat x < 256" using unsigned_less [of x] by simp
  with snoc show ?case by (simp add: be_nat_snoc)
qed

lemma le_bytes_be_nat: "le_bytes (length bs) (be_nat bs) = rev bs"
proof (induction bs rule: rev_induct)
  case Nil
  then show ?case by simp
next
  case (snoc x xs)
  have x: "unat x < 256" using unsigned_less [of x] by simp
  then have "(be_nat xs * 256 + unat x) mod 256 = unat x"
    and "(be_nat xs * 256 + unat x) div 256 = be_nat xs" by simp_all
  with snoc show ?case by (simp add: be_nat_snoc)
qed

lemma digit_char_is_digit: "d < 10 \<Longrightarrow> is_digit (digit_char d)"
  by (simp add: is_digit_def digit_char_def)

lemma of_char_digit_char: "d < 10 \<Longrightarrow> (of_char (digit_char d) :: nat) = 48 + d"
  by (simp add: digit_char_def)

lemma nat_to_dec_digits: "list_all is_digit (nat_to_dec n)"
proof (induction n rule: nat_to_dec.induct)
  case (1 n)
  show ?case
  proof (cases "n < 10")
    case True
    then show ?thesis by (subst nat_to_dec.simps) (simp add: digit_char_is_digit)
  next
    case False
    with 1 show ?thesis by (subst nat_to_dec.simps) (simp add: digit_char_is_digit)
  qed
qed

lemma nat_to_dec_nonempty: "nat_to_dec n \<noteq> []"
  by (subst nat_to_dec.simps) simp

lemma dec_value_snoc: "dec_value (s @ [c]) = dec_value s * 10 + ((of_char c :: nat) - 48)"
  by (simp add: dec_value_def)

lemma dec_value_nat_to_dec: "dec_value (nat_to_dec n) = n"
proof (induction n rule: nat_to_dec.induct)
  case (1 n)
  show ?case
  proof (cases "n < 10")
    case True
    then show ?thesis
      by (subst nat_to_dec.simps) (simp add: dec_value_def of_char_digit_char)
  next
    case False
    with 1 show ?thesis
      by (subst nat_to_dec.simps) (simp add: dec_value_snoc of_char_digit_char)
  qed
qed

lemma hd_nat_to_dec_not_minus: "hd (nat_to_dec n) \<noteq> CHR ''-''"
proof -
  have "is_digit (hd (nat_to_dec n))"
    using nat_to_dec_digits [of n] nat_to_dec_nonempty [of n]
    by (cases "nat_to_dec n") simp_all
  then show ?thesis by (auto simp: is_digit_def)
qed

lemma digit_not_space: "is_digit c \<Longrightarrow> \<not> is_js_space c"
  by (auto simp: is_digit_def is_js_space_def)

lemma filter_spaces_digits:
  "list_all is_digit s \<Longrightarrow> filter (\<lambda>c. \<not> is_js_space c) s = s"
  by (induction s) (simp_all add: digit_not_space)

lemma minus_not_space: "\<not> is_js_space CHR ''-''"
  by (simp add: is_js_space_def)

lemma bn_of_string_toString: "bn_of_string (bn_toString x) = Inr x"
proof (cases "x < 0")
  case False
  obtain c cs where d: "nat_to_dec (nat x) = c # cs"
    using nat_to_dec_nonempty [of "nat x"] by (cases "nat_to_dec (nat x)") auto
  have f: "filter (\<lambda>c. \<not> is_js_space c) (nat_to_dec (nat x)) = nat_to_dec (nat x)"
    by (rule filter_spaces_digits) (rule nat_to_dec_digits)
  have m: "c \<noteq> CHR ''-''" using hd_nat_to_dec_not_minus [of "nat x"] d by simp
  have g: "list_all is_digit (c # cs)" using nat_to_dec_digits [of "nat x"] d by simp
  have v: "dec_value (c # cs) = nat x" using dec_value_nat_to_dec [of "nat x"] d by simp
  have "bn_of_string (nat_to_dec (nat x)) = Inr (int (nat x))"
    unfolding bn_of_string_def f unfolding d using m g v by simp
  with False show ?thesis by (simp add: bn_toString_def)
next
  case True
  let ?ds = "nat_to_dec (nat (- x))"
  have f: "filter (\<lambda>c. \<not> is_js_space c) (CHR ''-'' # ?ds) = CHR ''-'' # ?ds"
    using filter_spaces_digits [OF nat_to_dec_digits [of "nat (- x)"]]
    by (simp add: minus_not_space)
  have "bn_of_string (CHR ''-'' # ?ds) = Inr (- int (nat (- x)))"
    unfolding bn_of_string_def f
    by (simp add: nat_to_dec_nonempty nat_to_dec_digits dec_value_nat_to_dec)
  with True show ?thesis by (simp add: bn_toString_def)
qed

lemma bn_mod_nonneg: "0 \<le> a \<Longrightarrow> 0 < b \<Longrightarrow> bn_mod a b = a mod b"
  by (cases "a = 0") (simp_all add: bn_mod_def)

lemma usdc_value:
  "be_nat USDC_MINT_bytes
     = 90000504370102394704099784797280792267247599056409324908524740370261802442081"
  by (simp add: be_nat_def USDC_MINT_bytes_def)

lemma hsol_value:
  "be_nat HSOL_MINT_bytes
     = 4708793163661227292679649279187973104389762712512810443077878604367936675269"
  by (simp add: be_nat_def HSOL_MINT_bytes_def)

lemma SOL_MINT_value: "dec_value SOL_MINT = 11111111111111111111111111111112"
  by (simp add: dec_value_def SOL_MINT_def)

lemma be_nat_rev_le_bytes: "n < 256 ^ k \<Longrightarrow> be_nat (rev (le_bytes k n)) = n"
proof (induction k arbitrary: n)
  case 0
  then show ?case by (simp add: be_nat_def)
next
  case (Suc k)
  have "n div 256 < 256 ^ k" using Suc.prems by (simp add: less_mult_imp_div_less)
  then have "be_nat (rev (le_bytes k (n div 256))) = n div 256" by (rule Suc.IH)
  moreover have "unat (word_of_nat (n mod 256) :: byte) = n mod 256"
    by (simp add: unat_of_nat)
  ultimately show ?case by (simp add: be_nat_snoc)
qed

lemma le_bytes_inj:
  assumes "a < 256 ^ k" and "b < 256 ^ k" and "le_bytes k a = le_bytes k b"
  shows "a = b"
proof -
  have "a = be_nat (rev (le_bytes k a))" using be_nat_rev_le_bytes [OF assms(1)] by simp
  also have "\<dots> = be_nat (rev (le_bytes k b))" by (simp only: assms(3))
  also have "\<dots> = b" by (rule be_nat_rev_le_bytes [OF assms(2)])
  finally show ?thesis .
qed

lemma SOL_MINT_string: "nat_to_dec 11111111111111111111111111111112 = SOL_MINT"
  by (simp add: nat_to_dec.simps SOL_MINT_def digit_char_def char_of_def bit_Suc_0_iff)

lemma mintAddressNumeric_value:
  "dec_value (mintAddressNumeric bs) = nat (bn_of_bytes bs mod FIELD_SIZE)"
proof -
  have F: "0 < FIELD_SIZE" by (simp add: FIELD_SIZE_def)
  have "bn_mod (bn_of_bytes bs) FIELD_SIZE = bn_of_bytes bs mod FIELD_SIZE"
    using F by (simp add: bn_mod_nonneg bn_of_bytes_def)
  moreover have "0 \<le> bn_of_bytes bs mod FIELD_SIZE" using F by simp
  ultimately show ?thesis
    by (simp add: mintAddressNumeric_def bn_toString_def dec_value_nat_to_dec)
qed

lemma mintAddressNumeric_native:
  "mintAddressNumeric bs = SOL_MINT
     \<longleftrightarrow> bn_of_bytes bs mod FIELD_SIZE = 11111111111111111111111111111112"
proof
  assume "mintAddressNumeric bs = SOL_MINT"
  then have "dec_value (mintAddressNumeric bs) = dec_value SOL_MINT" by simp
  then have "nat (bn_of_bytes bs mod FIELD_SIZE) = 11111111111111111111111111111112"
    by (simp only: mintAddressNumeric_value SOL_MINT_value)
  then show "bn_of_bytes bs mod FIELD_SIZE = 11111111111111111111111111111112" by simp
next
  assume a: "bn_of_bytes bs mod FIELD_SIZE = 11111111111111111111111111111112"
  have F: "0 < FIELD_SIZE" by (simp add: FIELD_SIZE_def)
  have "bn_mod (bn_of_bytes bs) FIELD_SIZE = bn_of_bytes bs mod FIELD_SIZE"
    using F by (simp add: bn_mod_nonneg bn_of_bytes_def)
  then show "mintAddressNumeric bs = SOL_MINT"
    by (simp add: mintAddressNumeric_def a bn_toString_def SOL_MINT_string)
qed

text \<open>
  C6, as amended. In legacy numeric mode the hash itself never reduces modulo
  \<open>FIELD_SIZE\<close>. For a non-native mint given as a 32-byte key the asset-tag field is the
  little-endian 32-byte encoding of the key read big-endian, that is, the key's bytes
  reversed; this is the encoding of the reduced value if and only if the key's value is
  below \<open>FIELD_SIZE\<close>. For a mint given as the numeric string the callers derive (the
  key's value modulo \<open>FIELD_SIZE\<close>, in decimal, as \<^verbatim>\<open>depositSpl\<close> does) the field is the
  little-endian 32-byte encoding of the reduced value, except when the reduced value is
  \<open>11111111111111111111111111111112\<close>: its string is the native literal, and the field
  is the native mint's key.
\<close>

theorem legacy_mint_field:
  assumes "length bs = 32" and "bs \<noteq> SOL_MINT_bytes"
  shows "mintAddressBytes_numeric (MintKey bs) = Inr (le_bytes 32 (nat (bn_of_bytes bs)))
     \<and> le_bytes 32 (nat (bn_of_bytes bs)) = rev bs
     \<and> (mintAddressBytes_numeric (MintKey bs)
            = Inr (le_bytes 32 (nat (bn_of_bytes bs mod FIELD_SIZE)))
          \<longleftrightarrow> bn_of_bytes bs < FIELD_SIZE)
     \<and> (bn_of_bytes bs mod FIELD_SIZE \<noteq> 11111111111111111111111111111112 \<longrightarrow>
          mintAddressBytes_numeric (MintStr (mintAddressNumeric bs))
            = Inr (le_bytes 32 (nat (bn_of_bytes bs mod FIELD_SIZE))))
     \<and> (bn_of_bytes bs mod FIELD_SIZE = 11111111111111111111111111111112 \<longrightarrow>
          mintAddressBytes_numeric (MintStr (mintAddressNumeric bs)) = Inr SOL_MINT_bytes)"
proof -
  have b: "be_nat bs < 256 ^ 32" using be_nat_bound [of bs] assms by simp
  have r: "le_bytes 32 (be_nat bs) = rev bs" using le_bytes_be_nat [of bs] assms by simp
  have 1: "mintAddressBytes_numeric (MintKey bs) = Inr (le_bytes 32 (nat (bn_of_bytes bs)))"
    using assms b by (simp add: mintAddressBytes_numeric_def bn_toArrayLike_le_def bn_of_bytes_def)
  have F: "0 < FIELD_SIZE" "FIELD_SIZE < 256 ^ 32" by (simp_all add: FIELD_SIZE_def)
  have m0: "0 \<le> bn_of_bytes bs mod FIELD_SIZE" "bn_of_bytes bs mod FIELD_SIZE < FIELD_SIZE"
    using F by simp_all
  have nn: "0 \<le> bn_of_bytes bs" by (simp add: bn_of_bytes_def)
  have mm: "bn_mod (bn_of_bytes bs) FIELD_SIZE = bn_of_bytes bs mod FIELD_SIZE"
    using F by (simp add: bn_mod_nonneg bn_of_bytes_def)
  have "bn_of_bytes bs mod FIELD_SIZE < 256 ^ 32"
    using m0(2) F(2) by (rule less_trans)
  then have fit: "nat \<bar>bn_of_bytes bs mod FIELD_SIZE\<bar> < 256 ^ 32"
    using m0 by (simp add: nat_less_iff)
  then have fit': "nat (bn_of_bytes bs mod FIELD_SIZE) < 256 ^ 32" using m0 by simp
  have 3: "mintAddressBytes_numeric (MintKey bs)
            = Inr (le_bytes 32 (nat (bn_of_bytes bs mod FIELD_SIZE)))
          \<longleftrightarrow> bn_of_bytes bs < FIELD_SIZE"
  proof
    assume "mintAddressBytes_numeric (MintKey bs)
            = Inr (le_bytes 32 (nat (bn_of_bytes bs mod FIELD_SIZE)))"
    with 1 have "le_bytes 32 (nat (bn_of_bytes bs))
        = le_bytes 32 (nat (bn_of_bytes bs mod FIELD_SIZE))" by simp
    moreover have "nat (bn_of_bytes bs) < 256 ^ 32" using b by (simp add: bn_of_bytes_def)
    ultimately have "nat (bn_of_bytes bs) = nat (bn_of_bytes bs mod FIELD_SIZE)"
      using fit' by (intro le_bytes_inj [of _ 32])
    with nn m0 have "bn_of_bytes bs = bn_of_bytes bs mod FIELD_SIZE" by simp
    with m0(2) show "bn_of_bytes bs < FIELD_SIZE" by simp
  next
    assume "bn_of_bytes bs < FIELD_SIZE"
    with nn have "bn_of_bytes bs mod FIELD_SIZE = bn_of_bytes bs" by simp
    with 1 show "mintAddressBytes_numeric (MintKey bs)
            = Inr (le_bytes 32 (nat (bn_of_bytes bs mod FIELD_SIZE)))" by simp
  qed
  have 4: "mintAddressBytes_numeric (MintStr (mintAddressNumeric bs))
            = Inr (le_bytes 32 (nat (bn_of_bytes bs mod FIELD_SIZE)))"
    if "bn_of_bytes bs mod FIELD_SIZE \<noteq> 11111111111111111111111111111112"
  proof -
    from that have "mintAddressNumeric bs \<noteq> SOL_MINT" by (simp add: mintAddressNumeric_native)
    then show ?thesis using m0 fit
      by (simp add: mintAddressBytes_numeric_def mintAddressNumeric_def mm bn_of_string_toString
          bn_toArrayLike_le_def)
  qed
  have 5: "mintAddressBytes_numeric (MintStr (mintAddressNumeric bs)) = Inr SOL_MINT_bytes"
    if "bn_of_bytes bs mod FIELD_SIZE = 11111111111111111111111111111112"
  proof -
    from that have "mintAddressNumeric bs = SOL_MINT" by (simp add: mintAddressNumeric_native)
    then show ?thesis by (simp add: mintAddressBytes_numeric_def)
  qed
  show ?thesis using 1 r 3 4 5 by (simp add: bn_of_bytes_def)
qed

theorem legacy_mint_field_witness:
  "length HSOL_MINT_bytes = 32 \<and> HSOL_MINT_bytes \<noteq> SOL_MINT_bytes
   \<and> bn_of_bytes HSOL_MINT_bytes < FIELD_SIZE
   \<and> bn_of_bytes HSOL_MINT_bytes mod FIELD_SIZE \<noteq> 11111111111111111111111111111112
   \<and> mintAddressBytes_numeric (MintKey HSOL_MINT_bytes)
        = Inr (le_bytes 32 (nat (bn_of_bytes HSOL_MINT_bytes mod FIELD_SIZE)))
   \<and> mintAddressBytes_numeric (MintStr (mintAddressNumeric HSOL_MINT_bytes))
        = Inr (le_bytes 32 (nat (bn_of_bytes HSOL_MINT_bytes mod FIELD_SIZE)))"
proof -
  have l: "length HSOL_MINT_bytes = 32" by (simp add: HSOL_MINT_bytes_def)
  have n: "HSOL_MINT_bytes \<noteq> SOL_MINT_bytes"
    by (simp add: HSOL_MINT_bytes_def SOL_MINT_bytes_def)
  have lt: "bn_of_bytes HSOL_MINT_bytes < FIELD_SIZE"
    by (simp add: bn_of_bytes_def hsol_value FIELD_SIZE_def)
  have s: "bn_of_bytes HSOL_MINT_bytes mod FIELD_SIZE \<noteq> 11111111111111111111111111111112"
    by (simp add: bn_of_bytes_def hsol_value FIELD_SIZE_def)
  show ?thesis using legacy_mint_field [OF l n] l n lt s by blast
qed

text \<open>
  C6 as stated fails for a mint whose value is not below \<open>FIELD_SIZE\<close>. The USDC mint is
  one: in legacy mode its asset-tag field is the key reversed (last byte \<open>0x61\<close> first),
  not the encoding of the reduced value (which starts \<open>0x5d\<close>).
\<close>

theorem legacy_mint_field_usdc_not_reduced:
  "length USDC_MINT_bytes = 32 \<and> USDC_MINT_bytes \<noteq> SOL_MINT_bytes
   \<and> mintAddressBytes_numeric (MintKey USDC_MINT_bytes) = Inr (rev USDC_MINT_bytes)
   \<and> mintAddressBytes_numeric (MintKey USDC_MINT_bytes)
       \<noteq> Inr (le_bytes 32 (nat (bn_of_bytes USDC_MINT_bytes mod FIELD_SIZE)))"
proof -
  have l: "length USDC_MINT_bytes = 32" by (simp add: USDC_MINT_bytes_def)
  have n: "USDC_MINT_bytes \<noteq> SOL_MINT_bytes"
    by (simp add: USDC_MINT_bytes_def SOL_MINT_bytes_def)
  have b: "be_nat USDC_MINT_bytes < 256 ^ 32" using be_nat_bound [of USDC_MINT_bytes] l by simp
  have r: "le_bytes 32 (be_nat USDC_MINT_bytes) = rev USDC_MINT_bytes"
    using le_bytes_be_nat [of USDC_MINT_bytes] l by simp
  have m: "mintAddressBytes_numeric (MintKey USDC_MINT_bytes) = Inr (rev USDC_MINT_bytes)"
    using n b r by (simp add: mintAddressBytes_numeric_def bn_toArrayLike_le_def bn_of_bytes_def)
  have v: "nat (bn_of_bytes USDC_MINT_bytes mod FIELD_SIZE)
     = 2447532882745293815114161816251691913054141454745187533731923623958568459613"
    by (simp add: bn_of_bytes_def usdc_value FIELD_SIZE_def)
  have "hd (le_bytes 32 (nat (bn_of_bytes USDC_MINT_bytes mod FIELD_SIZE))) = 93"
    unfolding v by (simp add: le_bytes_numeral)
  moreover have "hd (rev USDC_MINT_bytes) = 97" by (simp add: USDC_MINT_bytes_def)
  ultimately have
    "rev USDC_MINT_bytes \<noteq> le_bytes 32 (nat (bn_of_bytes USDC_MINT_bytes mod FIELD_SIZE))"
    by auto
  with l n m show ?thesis by simp
qed

subsection \<open>Blinding\<close>

text \<open>\<^verbatim>\<open>randomBN\<close> of \<^verbatim>\<open>src/models/utxo.ts\<close> stays in the nine-digit range.\<close>

lemma randomBN_range: "100000000 \<le> randomBN r \<and> randomBN r \<le> 999999999"
proof -
  have "unat r mod 900000000 < 900000000" by simp
  then show ?thesis unfolding randomBN_def by linarith
qed

text \<open>
  C9. The claim: a note built without a blinding gets a random integer between \<open>10^8\<close>
  and \<open>10^9 - 1\<close>. The copy of the note model in \<^verbatim>\<open>unnamed/part_009\<close> draws
  \<^verbatim>\<open>Math.floor(Math.random() * 1000000000)\<close>: when \<^verbatim>\<open>Math.random()\<close> gives \<open>1/16\<close> the
  blinding is 62500000, and when it gives 0 the blinding is 0, both below \<open>10^8\<close>.
\<close>

theorem randomBN_part_009_below_range:
  "randomBN_part_009 (1 / 16) = Inr 62500000 \<and> randomBN_part_009 0 = Inr 0
   \<and> (62500000 :: int) < 100000000"
  by (simp add: randomBN_part_009_def bn_of_number_def)

subsection \<open>Amounts of a built transaction\<close>

lemma bn_of_number_of_int: "bn_of_number (real_of_int z) = Inr w \<Longrightarrow> w = z"
  by (auto simp: bn_of_number_def split: if_splits)

lemma bn_of_number_of_int_eq:
  "\<bar>z\<bar> < 2 ^ 53 \<Longrightarrow> bn_of_number (real_of_int z) = Inr z"
proof -
  assume "\<bar>z\<bar> < 2 ^ 53"
  then have "\<bar>real_of_int z\<bar> < 2 ^ 53"
    by (metis of_int_abs of_int_less_numeral_power_cancel_iff)
  then show ?thesis by (auto simp: bn_of_number_def)
qed

lemma input_with_proof_index_amount:
  "input_with_proof_index H relayer u = Inr u' \<Longrightarrow> amount u' = amount u"
  by (auto simp: input_with_proof_index_def bindE_Inr_iff split: if_splits)

lemma withdraw_build_facts:
  assumes build: "withdraw_build H relayer rnd kp nxt locked amount_in_sol unspent = Inr (Single tx)"
  shows "\<exists>amountBN required.
      bn_of_number (amount_in_sol * LAMPORTS_PER_SOL - real_of_int (withdraw_fee amount_in_sol))
        = Inr amountBN
    \<and> bn_of_number (real_of_int (withdraw_fee amount_in_sol)) = Inr (tx_fee tx)
    \<and> bn_of_number (- (amount_in_sol * LAMPORTS_PER_SOL - real_of_int (withdraw_fee amount_in_sol)))
        = Inr (tx_extAmount tx)
    \<and> bn_of_number (amount_in_sol * LAMPORTS_PER_SOL - real_of_int (withdraw_fee amount_in_sol)
          + real_of_int (withdraw_fee amount_in_sol)) = Inr required
    \<and> required \<le> sum_list (inAmount tx)
    \<and> 0 < amount_in_sol
    \<and> length (tx_inputs tx) = 2
    \<and> \<bar>sum_list (inAmount tx)\<bar> < 2 ^ 53
    \<and> outAmount tx = [sum_list (inAmount tx) - amountBN - tx_fee tx, 0]
    \<and> tx_publicAmount tx = publicAmountForCircuit (tx_extAmount tx) (tx_fee tx)"
  using build
  apply (simp add: withdraw_build_def withdraw_fee_def Let_def bindE_Inr_iff split: if_splits)
  apply (auto simp: validateWithdrawalAmount_def Let_def bindE_Inr_iff bn_toNumber_def outAmount_def
      inAmount_def new_Utxo_def
      split: if_splits dest!: input_with_proof_index_amount)
  done


lemma bn_of_number_nonneg: "0 \<le> x \<Longrightarrow> bn_of_number x = Inr v \<Longrightarrow> v = \<lfloor>x\<rfloor>"
  by (auto simp: bn_of_number_def split: if_splits)

lemma bn_of_number_neg: "0 \<le> x \<Longrightarrow> bn_of_number (- x) = Inr v \<Longrightarrow> v = - \<lfloor>x\<rfloor>"
  by (cases "x = 0") (auto simp: bn_of_number_def split: if_splits)

lemma withdraw_fee_bounds:
  assumes "0 < amount_in_sol"
  shows "0 \<le> withdraw_fee amount_in_sol"
    and "real_of_int (withdraw_fee amount_in_sol) \<le> amount_in_sol * LAMPORTS_PER_SOL"
proof -
  let ?A = "amount_in_sol * LAMPORTS_PER_SOL"
  have A: "0 < ?A" using assms by (simp add: LAMPORTS_PER_SOL_def)
  then have nn: "0 \<le> ?A * (WITHDRAW_FEE_RATE / 100)" by (simp add: WITHDRAW_FEE_RATE_def)
  then show "0 \<le> withdraw_fee amount_in_sol" by (simp add: withdraw_fee_def)
  have "real_of_int (withdraw_fee amount_in_sol) \<le> ?A * (WITHDRAW_FEE_RATE / 100)"
    unfolding withdraw_fee_def by (rule of_int_floor_le)
  also have "\<dots> \<le> ?A * 1"
    using A by (intro mult_left_mono) (simp_all add: WITHDRAW_FEE_RATE_def)
  finally show "real_of_int (withdraw_fee amount_in_sol) \<le> ?A" by simp
qed

lemma FIELD_SIZE_big: "2 ^ 66 < FIELD_SIZE"
  by (simp add: FIELD_SIZE_def)

lemma public_amount_balance:
  assumes "0 \<le> t" and "0 \<le> t + (e - f)" and "t + (e - f) < FIELD_SIZE" and "- FIELD_SIZE < e - f"
  shows "publicAmountForCircuit e f = (e - f) mod FIELD_SIZE"
    and "(t + publicAmountForCircuit e f) mod FIELD_SIZE = t + (e - f)"
proof -
  have F: "0 < FIELD_SIZE" by (simp add: FIELD_SIZE_def)
  have "0 \<le> e - f + FIELD_SIZE" using assms by simp
  then have "bn_mod (e - f + FIELD_SIZE) FIELD_SIZE = (e - f + FIELD_SIZE) mod FIELD_SIZE"
    using F by (rule bn_mod_nonneg)
  then show p: "publicAmountForCircuit e f = (e - f) mod FIELD_SIZE"
    by (simp add: publicAmountForCircuit_def)
  have "(t + (e - f) mod FIELD_SIZE) mod FIELD_SIZE = (t + (e - f)) mod FIELD_SIZE"
    by (simp add: mod_add_right_eq)
  also have "\<dots> = t + (e - f)" using assms by simp
  finally show "(t + publicAmountForCircuit e f) mod FIELD_SIZE = t + (e - f)"
    by (simp add: p)
qed

lemma withdraw_balanced:
  assumes build: "withdraw_build H relayer rnd kp nxt locked amount_in_sol unspent = Inr (Single tx)"
  shows "balanced tx" and "tx_publicAmount tx = (tx_extAmount tx - tx_fee tx) mod FIELD_SIZE"
proof -
  let ?A = "amount_in_sol * LAMPORTS_PER_SOL"
  let ?f = "withdraw_fee amount_in_sol"
  from withdraw_build_facts [OF build] obtain amountBN required where
    a: "bn_of_number (?A - real_of_int ?f) = Inr amountBN"
    and f: "bn_of_number (real_of_int ?f) = Inr (tx_fee tx)"
    and e: "bn_of_number (- (?A - real_of_int ?f)) = Inr (tx_extAmount tx)"
    and r: "bn_of_number (?A - real_of_int ?f + real_of_int ?f) = Inr required"
    and le: "required \<le> sum_list (inAmount tx)"
    and pos: "0 < amount_in_sol"
    and t: "\<bar>sum_list (inAmount tx)\<bar> < 2 ^ 53"
    and out: "outAmount tx = [sum_list (inAmount tx) - amountBN - tx_fee tx, 0]"
    and pub: "tx_publicAmount tx = publicAmountForCircuit (tx_extAmount tx) (tx_fee tx)"
    by blast
  have f0: "0 \<le> ?f" and fA: "real_of_int ?f \<le> ?A" using withdraw_fee_bounds [OF pos] by simp_all
  have fee: "tx_fee tx = ?f" using bn_of_number_of_int [OF f] .
  have d: "0 \<le> ?A - real_of_int ?f" using fA by simp
  have am: "amountBN = \<lfloor>?A\<rfloor> - ?f" using bn_of_number_nonneg [OF d a] by simp
  have ex: "tx_extAmount tx = - amountBN" using bn_of_number_neg [OF d e] bn_of_number_nonneg [OF d a] by simp
  have A0: "0 \<le> ?A" using d f0 by linarith
  have "required = \<lfloor>?A\<rfloor>" using bn_of_number_nonneg [of "?A" required] r A0 by simp
  then have req: "required = amountBN + ?f" using am by simp
  have an: "0 \<le> amountBN" using am d by (simp add: le_floor_iff)
  let ?t = "sum_list (inAmount tx)"
  have t0: "0 \<le> ?t" using le req an f0 by linarith
  have tF: "?t < FIELD_SIZE" using t FIELD_SIZE_big by (simp add: FIELD_SIZE_def)
  have p1: "0 \<le> ?t + (tx_extAmount tx - tx_fee tx)" using le req ex fee by linarith
  have p2: "?t + (tx_extAmount tx - tx_fee tx) < FIELD_SIZE" using tF ex fee an f0 by linarith
  have p3: "- FIELD_SIZE < tx_extAmount tx - tx_fee tx" using p1 tF by linarith
  show "tx_publicAmount tx = (tx_extAmount tx - tx_fee tx) mod FIELD_SIZE"
    using public_amount_balance(1) [OF t0 p1 p2 p3] pub by simp
  have "(?t + tx_publicAmount tx) mod FIELD_SIZE = ?t + (tx_extAmount tx - tx_fee tx)"
    using public_amount_balance(2) [OF t0 p1 p2 p3] pub by simp
  then show "balanced tx" using out ex by (simp add: balanced_def)
qed



lemma deposit_inputs_facts:
  assumes "deposit_inputs H relayer rnd m amountBN feeBN existing = Inr (out, ins)"
  shows "\<exists>i1 i2. ins = [i1, i2]
     \<and> (amount i1 = 0 \<or> i1 \<in> set existing) \<and> (amount i2 = 0 \<or> i2 \<in> set existing)
     \<and> out = amount i1 + amount i2 + amountBN - feeBN"
proof (cases "length existing = 0")
  case True
  with assms show ?thesis by (auto simp: deposit_inputs_def new_Utxo_def)
next
  case False
  note ne = this
  show ?thesis
  proof (cases "length existing > 1")
    case True
    with ne have l: "0 < length existing" "1 < length existing" by simp_all
    have "existing ! 0 \<in> set existing" "existing ! 1 \<in> set existing"
      using l(1) nth_mem apply blast using l(2) nth_mem apply blast done
    with assms ne True show ?thesis
      by (auto simp: deposit_inputs_def Let_def bindE_Inr_iff)
  next
    case False
    from ne have "0 < length existing" by simp
    then have "existing ! 0 \<in> set existing" by (rule nth_mem)
    with assms ne False show ?thesis
      by (auto simp: deposit_inputs_def Let_def bindE_Inr_iff new_Utxo_def)
  qed
qed

lemma depositSpl_build_facts:
  assumes build: "depositSpl_build H relayer rnd kp nxt mintBytes balance amt existing = Inr tx"
  shows "\<exists>a i1 i2. amt = real_of_int a \<and> 0 < a \<and> a < 2 ^ 53
    \<and> tx_extAmount tx = a
    \<and> tx_fee tx = \<lfloor>(real_of_int a * DEPOSIT_FEE_RATE) / 100\<rfloor>
    \<and> tx_inputs tx = [i1, i2]
    \<and> (amount i1 = 0 \<or> i1 \<in> set existing) \<and> (amount i2 = 0 \<or> i2 \<in> set existing)
    \<and> outAmount tx = [sum_list (inAmount tx) + a - tx_fee tx, 0]
    \<and> tx_publicAmount tx = publicAmountForCircuit (tx_extAmount tx) (tx_fee tx)"
proof -
  from build have v: "validateSplAmount amt = Inr ()"
    by (auto simp: depositSpl_build_def bindE_Inr_iff)
  then have pos: "0 < amt" and int: "amt = real_of_int \<lfloor>amt\<rfloor>" and small: "amt \<le> MAX_SAFE_INTEGER"
    by (auto simp: validateSplAmount_def split: if_splits)
  let ?a = "\<lfloor>amt\<rfloor>"
  let ?f = "\<lfloor>(amt * DEPOSIT_FEE_RATE) / 100\<rfloor>"
  have a0: "0 < ?a" using pos int by linarith
  have "real_of_int ?a < 2 ^ 53" using small int by (simp add: MAX_SAFE_INTEGER_def)
  then have a53: "?a < 2 ^ 53" by (metis of_int_less_numeral_power_cancel_iff)
  have bn: "bn_of_number amt = Inr ?a"
    using bn_of_number_of_int_eq [of ?a] a0 a53 int by simp
  from build v bn obtain feeBN out ins where
    f: "bn_of_number (real_of_int ?f) = Inr feeBN"
    and d: "deposit_inputs H relayer rnd (mintAddressNumeric mintBytes) ?a feeBN existing = Inr (out, ins)"
    and tx: "tx = \<lparr>tx_inputs = ins,
        tx_outputs = [new_Utxo out kp (randomBN (output_draw1 rnd)) nxt (mintAddressNumeric mintBytes),
                      new_Utxo 0 kp (randomBN (output_draw2 rnd)) (nxt + 1) (mintAddressNumeric mintBytes)],
        tx_extAmount = ?a, tx_fee = feeBN, tx_publicAmount = publicAmountForCircuit ?a feeBN\<rparr>"
    by (auto simp: depositSpl_build_def Let_def bindE_Inr_iff split: if_splits)
  have fee: "feeBN = ?f" using bn_of_number_of_int [OF f] .
  from deposit_inputs_facts [OF d] obtain i1 i2 where
    i: "ins = [i1, i2]" "amount i1 = 0 \<or> i1 \<in> set existing" "amount i2 = 0 \<or> i2 \<in> set existing"
      "out = amount i1 + amount i2 + ?a - feeBN"
    by blast
  show ?thesis
    apply (rule exI [of _ ?a], rule exI [of _ i1], rule exI [of _ i2])
    using a0 a53 int i fee
    apply (simp add: tx outAmount_def inAmount_def new_Utxo_def)
    done
qed

lemma deposit_fee_bounds:
  assumes "0 < a"
  shows "0 \<le> \<lfloor>(real_of_int a * DEPOSIT_FEE_RATE) / 100\<rfloor>"
    and "\<lfloor>(real_of_int a * DEPOSIT_FEE_RATE) / 100\<rfloor> \<le> a"
proof -
  have "0 \<le> (real_of_int a * DEPOSIT_FEE_RATE) / 100"
    using assms by (simp add: DEPOSIT_FEE_RATE_def)
  then show "0 \<le> \<lfloor>(real_of_int a * DEPOSIT_FEE_RATE) / 100\<rfloor>" by simp
  have "(real_of_int a * DEPOSIT_FEE_RATE) / 100 \<le> real_of_int a"
    using assms by (simp add: DEPOSIT_FEE_RATE_def)
  then show "\<lfloor>(real_of_int a * DEPOSIT_FEE_RATE) / 100\<rfloor> \<le> a"
    by (simp add: floor_le_iff)
qed

lemma deposit_balanced:
  assumes build: "depositSpl_build H relayer rnd kp nxt mintBytes balance amt existing = Inr tx"
    and u64: "\<forall>u\<in>set existing. 0 \<le> amount u \<and> amount u < 2 ^ 64"
  shows "balanced tx" and "tx_publicAmount tx = (tx_extAmount tx - tx_fee tx) mod FIELD_SIZE"
proof -
  from depositSpl_build_facts [OF build] obtain a i1 i2 where
    a: "0 < a" "a < 2 ^ 53"
    and e: "tx_extAmount tx = a"
    and f: "tx_fee tx = \<lfloor>(real_of_int a * DEPOSIT_FEE_RATE) / 100\<rfloor>"
    and i: "tx_inputs tx = [i1, i2]" "amount i1 = 0 \<or> i1 \<in> set existing"
      "amount i2 = 0 \<or> i2 \<in> set existing"
    and out: "outAmount tx = [sum_list (inAmount tx) + a - tx_fee tx, 0]"
    and pub: "tx_publicAmount tx = publicAmountForCircuit (tx_extAmount tx) (tx_fee tx)"
    by blast
  have b1: "0 \<le> amount i1 \<and> amount i1 < 2 ^ 64" using i(2) u64 by auto
  have b2: "0 \<le> amount i2 \<and> amount i2 < 2 ^ 64" using i(3) u64 by auto
  let ?t = "sum_list (inAmount tx)"
  have t: "?t = amount i1 + amount i2" using i(1) by (simp add: inAmount_def)
  have f0: "0 \<le> tx_fee tx" and fa: "tx_fee tx \<le> a"
    using deposit_fee_bounds [OF a(1)] f by simp_all
  have t0: "0 \<le> ?t" using t b1 b2 by simp
  have p1: "0 \<le> ?t + (tx_extAmount tx - tx_fee tx)" using t0 e fa by simp
  have "?t + (tx_extAmount tx - tx_fee tx) < 2 ^ 64 + 2 ^ 64 + 2 ^ 53"
    using t b1 b2 e f0 a(2) by linarith
  also have "\<dots> < FIELD_SIZE" by (simp add: FIELD_SIZE_def)
  finally have p2: "?t + (tx_extAmount tx - tx_fee tx) < FIELD_SIZE" .
  have p3: "- FIELD_SIZE < tx_extAmount tx - tx_fee tx" using e fa a(1) by (simp add: FIELD_SIZE_def)
  show "tx_publicAmount tx = (tx_extAmount tx - tx_fee tx) mod FIELD_SIZE"
    using public_amount_balance(1) [OF t0 p1 p2 p3] pub by simp
  have "(?t + tx_publicAmount tx) mod FIELD_SIZE = ?t + (tx_extAmount tx - tx_fee tx)"
    using public_amount_balance(2) [OF t0 p1 p2 p3] pub by simp
  then show "balanced tx" using out e by (simp add: balanced_def)
qed

lemma withdrawal_scenario:
  "withdraw_build (\<lambda>xs. 0) (\<lambda>c. OkIndex 5) rnd_A kp_A 40 True (5 / 1000) [note_10M]
   = Inr (Single tx_withdrawal)"
  by (simp add: withdraw_build_def LAMPORTS_PER_SOL_def WITHDRAW_FEE_RATE_def
      validateWithdrawalAmount_def MAX_SAFE_INTEGER_def bn_of_number_def note_10M_def
      new_Utxo_def validateTransactionSize_def estimateTransactionSize_def
      MAX_TRANSACTION_SIZE_def bn_toNumber_def input_with_proof_index_def fetchMerkleProof_def
      randomBN_def rnd_A_def publicAmountForCircuit_def bn_mod_def FIELD_SIZE_def Let_def
      tx_withdrawal_def)

lemma fresh_deposit_scenario:
  "depositSpl_build (\<lambda>xs. 0) (\<lambda>c. OkIndex 5) rnd_A kp_A 40 USDC_MINT_bytes 50000000 10000000 []
   = Inr tx_fresh_deposit"
  by (simp add: depositSpl_build_def validateSplAmount_def MAX_SAFE_INTEGER_def MAX_LAMPORTS_def
      DEPOSIT_FEE_RATE_def bn_of_number_def deposit_inputs_def new_Utxo_def randomBN_def rnd_A_def
      publicAmountForCircuit_def bn_mod_def FIELD_SIZE_def Let_def tx_fresh_deposit_def)

lemma consolidating_deposit_scenario:
  "depositSpl_build (\<lambda>xs. 0) (\<lambda>c. OkIndex 5) rnd_A kp_A 40 USDC_MINT_bytes 50000000 10000000
     [usdc_20M, usdc_5M]
   = Inr tx_consolidating_deposit"
  by (simp add: depositSpl_build_def validateSplAmount_def MAX_SAFE_INTEGER_def MAX_LAMPORTS_def
      DEPOSIT_FEE_RATE_def bn_of_number_def deposit_inputs_def new_Utxo_def randomBN_def rnd_A_def
      publicAmountForCircuit_def bn_mod_def FIELD_SIZE_def Let_def tx_consolidating_deposit_def
      usdc_20M_def usdc_5M_def fetchMerkleProof_def)




text \<open>
  C2. Every transaction the builders give (a withdrawal, a fresh deposit, a consolidating
  deposit) satisfies the balance equation
  \<open>(\<Sigma> inAmount + publicAmount) mod FIELD_SIZE = \<Sigma> outAmount\<close>, with
  \<open>publicAmount = (ext_amount - fee) mod FIELD_SIZE\<close>, a value in \<open>[0, FIELD_SIZE)\<close>.
  For a deposit onto existing notes, the notes' amounts are unsigned 64-bit numbers, as
  the data model has them.
\<close>

theorem built_transactions_balance:
  "(withdraw_build H relayer rnd kp nxt locked amount_in_sol unspent = Inr (Single tx) \<longrightarrow>
      balanced tx \<and> tx_publicAmount tx = (tx_extAmount tx - tx_fee tx) mod FIELD_SIZE
      \<and> 0 \<le> tx_publicAmount tx \<and> tx_publicAmount tx < FIELD_SIZE)
   \<and> (depositSpl_build H' relayer' rnd' kp' nxt' mintBytes balance amt existing = Inr tx'
        \<and> (\<forall>u\<in>set existing. 0 \<le> amount u \<and> amount u < 2 ^ 64) \<longrightarrow>
      balanced tx' \<and> tx_publicAmount tx' = (tx_extAmount tx' - tx_fee tx') mod FIELD_SIZE
      \<and> 0 \<le> tx_publicAmount tx' \<and> tx_publicAmount tx' < FIELD_SIZE)"
proof -
  have F: "0 < FIELD_SIZE" by (simp add: FIELD_SIZE_def)
  have r: "\<And>x. 0 \<le> x mod FIELD_SIZE \<and> x mod FIELD_SIZE < FIELD_SIZE" using F by simp
  show ?thesis
    using withdraw_balanced deposit_balanced r by metis
qed

theorem built_transactions_balance_witness:
  "withdraw_build (\<lambda>xs. 0) (\<lambda>c. OkIndex 5) rnd_A kp_A 40 True (5 / 1000) [note_10M]
     = Inr (Single tx_withdrawal)
   \<and> depositSpl_build (\<lambda>xs. 0) (\<lambda>c. OkIndex 5) rnd_A kp_A 40 USDC_MINT_bytes 50000000 10000000 []
     = Inr tx_fresh_deposit
   \<and> depositSpl_build (\<lambda>xs. 0) (\<lambda>c. OkIndex 5) rnd_A kp_A 40 USDC_MINT_bytes 50000000 10000000
       [usdc_20M, usdc_5M] = Inr tx_consolidating_deposit
   \<and> list_all (\<lambda>u. 0 \<le> amount u \<and> amount u < 2 ^ 64) [usdc_20M, usdc_5M]
   \<and> balanced tx_withdrawal \<and> balanced tx_fresh_deposit \<and> balanced tx_consolidating_deposit
   \<and> tx_publicAmount tx_withdrawal = (- 4985000 - 15000) mod FIELD_SIZE
   \<and> tx_publicAmount tx_fresh_deposit = (10000000 - 30000) mod FIELD_SIZE"
proof -
  have u: "\<forall>u\<in>set [usdc_20M, usdc_5M]. 0 \<le> amount u \<and> amount u < 2 ^ 64"
    by (simp add: usdc_20M_def usdc_5M_def new_Utxo_def)
  have e: "\<forall>u\<in>set ([] :: utxo list). 0 \<le> amount u \<and> amount u < 2 ^ 64" by simp
  have a: "balanced tx_withdrawal
      \<and> tx_publicAmount tx_withdrawal = (tx_extAmount tx_withdrawal - tx_fee tx_withdrawal) mod FIELD_SIZE"
    using built_transactions_balance
      [of "\<lambda>xs. 0" "\<lambda>c. OkIndex 5" rnd_A kp_A 40 True "5 / 1000" "[note_10M]" tx_withdrawal]
      withdrawal_scenario by blast
  have b: "balanced tx_fresh_deposit
      \<and> tx_publicAmount tx_fresh_deposit
          = (tx_extAmount tx_fresh_deposit - tx_fee tx_fresh_deposit) mod FIELD_SIZE"
    using built_transactions_balance
      [of _ _ _ _ _ _ _ _ _ "\<lambda>xs. 0" "\<lambda>c. OkIndex 5" rnd_A kp_A 40 USDC_MINT_bytes 50000000
         10000000 "[]" tx_fresh_deposit]
      fresh_deposit_scenario e by blast
  have c: "balanced tx_consolidating_deposit"
    using built_transactions_balance
      [of _ _ _ _ _ _ _ _ _ "\<lambda>xs. 0" "\<lambda>c. OkIndex 5" rnd_A kp_A 40 USDC_MINT_bytes 50000000
         10000000 "[usdc_20M, usdc_5M]" tx_consolidating_deposit]
      consolidating_deposit_scenario u by blast
  have x: "tx_extAmount tx_withdrawal = - 4985000" "tx_fee tx_withdrawal = 15000"
    "tx_extAmount tx_fresh_deposit = 10000000" "tx_fee tx_fresh_deposit = 30000"
    by (simp_all add: tx_withdrawal_def tx_fresh_deposit_def)
  have l: "list_all (\<lambda>u. 0 \<le> amount u \<and> amount u < 2 ^ 64) [usdc_20M, usdc_5M]"
    using u by simp
  show ?thesis
    using a b c l withdrawal_scenario fresh_deposit_scenario consolidating_deposit_scenario
    by (simp add: x)
qed

subsection \<open>The note scanner\<close>

lemma getCommitment_update_index:
  "getCommitment H (update_index H relayer u) = getCommitment H u"
  by (simp add: update_index_def getCommitment_def split: proof_reply.splits)

lemma update_index_reported:
  assumes "relayer (getCommitment H (update_index H relayer u)) = OkIndex i"
  shows "index (update_index H relayer u) = i"
  using assms by (simp add: getCommitment_update_index) (simp add: update_index_def)

lemma keep_unspent_mem:
  "u \<in> set (keep_unspent cs sp) \<Longrightarrow> \<exists>i<length cs. u = cs ! i \<and> \<not> truthy_at sp i"
  by (auto simp: keep_unspent_def)

lemma fetch_accounts_ok:
  assumes "\<forall>b. \<not> rpc_throws conn b"
  shows "fetch_accounts conn xs = Inr (map (accounts conn) xs)"
  using assms
proof (induction conn xs rule: fetch_accounts.induct)
  case (1 conn allPDAs)
  show ?case
  proof (cases "allPDAs = []")
    case True
    then show ?thesis by (subst fetch_accounts.simps) simp
  next
    case False
    have "map (accounts conn) (take 100 allPDAs) @ map (accounts conn) (drop 100 allPDAs)
        = map (accounts conn) allPDAs"
      by (simp flip: map_append)
    with False 1 show ?thesis
      by (subst fetch_accounts.simps) (simp add: getMultipleAccountsInfo_def)
  qed
qed

lemma fetch_accounts_Inr:
  "fetch_accounts conn xs = Inr r \<Longrightarrow> r = map (accounts conn) xs"
proof (induction conn xs arbitrary: r rule: fetch_accounts.induct)
  case (1 conn allPDAs)
  show ?case
  proof (cases "allPDAs = []")
    case True
    with "1.prems" show ?thesis by (subst (asm) fetch_accounts.simps) simp
  next
    case False
    from "1.prems" False obtain r1 r2 where
      g: "getMultipleAccountsInfo conn (take 100 allPDAs) = Inr r1"
      and f: "fetch_accounts conn (drop 100 allPDAs) = Inr r2" and r: "r = r1 @ r2"
      by (subst (asm) fetch_accounts.simps) (auto simp: bindE_Inr_iff)
    from g have "r1 = map (accounts conn) (take 100 allPDAs)"
      by (auto simp: getMultipleAccountsInfo_def split: if_splits)
    moreover from "1.IH" [OF False f] have "r2 = map (accounts conn) (drop 100 allPDAs)" .
    ultimately show ?thesis using r by (simp flip: map_append)
  qed
qed

lemma getNullifier_value: "dec_value (getNullifier H u) < 256 ^ 32"
proof -
  obtain w :: "256 word" where "getNullifier H u = nat_to_dec (unat w)"
    by (simp add: getNullifier_def poseidonHashString_def Let_def)
  moreover have "unat w < 2 ^ 256" using unsigned_less [of w] by simp
  ultimately show ?thesis by (simp add: dec_value_nat_to_dec)
qed

lemma utxo_pdas_ok: "utxo_pdas pda H u = Inr [marker0 pda H u, marker1 pda H u]"
  using getNullifier_value [of H u]
  by (simp add: utxo_pdas_def nullifierBytes_def leInt2Buff_def marker0_def marker1_def)

lemma mapE_ok: "(\<And>x. f x = Inr (g x)) \<Longrightarrow> mapE f xs = Inr (map g xs)"
  by (induction xs) simp_all

lemma concat_pairs_nth:
  "i < length us \<Longrightarrow>
     concat (map (\<lambda>u. [f u, g u]) us) ! (2 * i) = f (us ! i)
   \<and> concat (map (\<lambda>u. [f u, g u]) us) ! Suc (2 * i) = g (us ! i)"
proof (induction us arbitrary: i)
  case Nil
  then show ?case by simp
next
  case (Cons a us)
  show ?case
  proof (cases i)
    case 0
    then show ?thesis by simp
  next
    case (Suc j)
    with Cons show ?thesis by simp
  qed
qed

lemma length_concat_pairs: "length (concat (map (\<lambda>u. [f u, g u]) us)) = 2 * length us"
  by (induction us) simp_all

lemma spent_statuses:
  "map (\<lambda>i. truthy_at (map (accounts conn)
                   (concat (map (\<lambda>u. [marker0 pda H u, marker1 pda H u]) us))) (2 * i)
           \<or> truthy_at (map (accounts conn)
                   (concat (map (\<lambda>u. [marker0 pda H u, marker1 pda H u]) us))) (2 * i + 1))
     [0..<length us]
   = map (is_spent pda H conn) us"
proof -
  let ?pdas = "map (\<lambda>u. [marker0 pda H u, marker1 pda H u]) us"
  have "map (\<lambda>i. truthy_at (map (accounts conn) (concat ?pdas)) (2 * i)
                 \<or> truthy_at (map (accounts conn) (concat ?pdas)) (2 * i + 1)) [0..<length us]
      = map (\<lambda>i. is_spent pda H conn (us ! i)) [0..<length us]"
    by (rule map_cong)
       (auto simp: truthy_at_def length_concat_pairs is_spent_def concat_pairs_nth
          simp del: concat_map_singleton)
  also have "\<dots> = map (is_spent pda H conn) us"
    by (rule nth_equalityI) simp_all
  finally show ?thesis .
qed

text \<open>Whenever the spent check answers, its answer is the state of the chain.\<close>

lemma batchCheckUtxosSpent_Inr:
  assumes "batchCheckUtxosSpent pda H conn us = Inr sp"
  shows "sp = map (is_spent pda H conn) us"
proof (cases "us = []")
  case True
  with assms show ?thesis by (simp add: batchCheckUtxosSpent_def)
next
  case False
  let ?pdas = "map (\<lambda>u. [marker0 pda H u, marker1 pda H u]) us"
  have m: "mapE (utxo_pdas pda H) us = Inr ?pdas"
    by (rule mapE_ok) (rule utxo_pdas_ok)
  from assms False obtain infos where f: "fetch_accounts conn (concat ?pdas) = Inr infos"
    by (cases "fetch_accounts conn (concat ?pdas)") (simp_all add: batchCheckUtxosSpent_def m)
  from fetch_accounts_Inr [OF f] have i: "infos = map (accounts conn) (concat ?pdas)" .
  from assms False have "sp = map (\<lambda>i. truthy_at infos (2 * i) \<or> truthy_at infos (2 * i + 1))
      [0..<length us]"
    by (simp add: batchCheckUtxosSpent_def m f)
  then show ?thesis unfolding i by (simp only: spent_statuses)
qed

lemma batchCheckUtxosSpent_ok:
  assumes "\<forall>b. \<not> rpc_throws conn b"
  shows "batchCheckUtxosSpent pda H conn us = Inr (map (is_spent pda H conn) us)"
proof (cases "us = []")
  case True
  then show ?thesis by (simp add: batchCheckUtxosSpent_def)
next
  case False
  let ?pdas = "map (\<lambda>u. [marker0 pda H u, marker1 pda H u]) us"
  have m: "mapE (utxo_pdas pda H) us = Inr ?pdas"
    by (rule mapE_ok) (rule utxo_pdas_ok)
  have f: "fetch_accounts conn (concat ?pdas) = Inr (map (accounts conn) (concat ?pdas))"
    by (rule fetch_accounts_ok [OF assms])
  show ?thesis using False spent_statuses [of conn pda H us]
    by (simp add: batchCheckUtxosSpent_def m f)
qed

lemma fetch_accounts_throws:
  assumes "xs \<noteq> []" and "rpc_throws conn (take 100 xs)"
  shows "fetch_accounts conn xs = Inl RpcError"
  using assms by (subst fetch_accounts.simps) (simp add: getMultipleAccountsInfo_def bindE_def)

text \<open>When the account lookup throws, so does the spent check.\<close>

lemma batchCheckUtxosSpent_throws:
  assumes "\<forall>b. rpc_throws conn b" and "us \<noteq> []"
  shows "batchCheckUtxosSpent pda H conn us = Inl TypeError"
proof -
  let ?pdas = "map (\<lambda>u. [marker0 pda H u, marker1 pda H u]) us"
  have m: "mapE (utxo_pdas pda H) us = Inr ?pdas"
    by (rule mapE_ok) (rule utxo_pdas_ok)
  have "concat ?pdas \<noteq> []" using assms(2) by (cases us) simp_all
  then have f: "fetch_accounts conn (concat ?pdas) = Inl RpcError"
    using assms by (intro fetch_accounts_throws) simp_all
  show ?thesis using assms(2) by (simp add: batchCheckUtxosSpent_def m f)
qed

lemma collect_candidates_subset:
  "collect_candidates dec outs cands seen = Inr res \<Longrightarrow>
     set res \<subseteq> set cands \<union> {u. \<exists>eo\<in>set outs. dec eo = Some u}"
proof (induction outs arbitrary: cands seen)
  case Nil
  then show ?case by simp
next
  case (Cons eo rest)
  show ?case
  proof (cases "dec eo")
    case None
    with Cons show ?thesis by fastforce
  next
    case (Some c)
    with Cons.prems obtain a where a: "bn_toNumber (amount c) = Inr a"
      by (cases "bn_toNumber (amount c)") (simp_all add: bindE_def)
    from Cons.prems Some a
    consider "collect_candidates dec rest cands seen = Inr res"
      | "collect_candidates dec rest (cands @ [c]) (seen @ [eo]) = Inr res"
      by (auto simp: bindE_def split: if_splits)
    then show ?thesis
    proof cases
      case 1
      from Cons.IH [OF 1] show ?thesis by auto
    next
      case 2
      from Cons.IH [OF 2] Some show ?thesis by auto
    qed
  qed
qed

lemma cached_result:
  assumes r: "decryptCachedOutputs dec H relayer pda conn outs = Inr res" and u: "u \<in> set res"
  shows "\<exists>c. (\<exists>eo\<in>set outs. dec eo = Some c) \<and> u = update_index H relayer c
     \<and> \<not> is_spent pda H conn u"
proof -
  from r obtain cands where c: "collect_candidates dec outs [] [] = Inr cands"
    by (cases "collect_candidates dec outs [] []") (simp_all add: decryptCachedOutputs_def)
  let ?upd = "map (update_index H relayer) cands"
  from r c u have ne: "cands \<noteq> []"
    by (auto simp: decryptCachedOutputs_def split: if_splits)
  with r c obtain sp where sp: "batchCheckUtxosSpent pda H conn ?upd = Inr sp"
    and res: "res = keep_unspent ?upd sp"
    by (cases "batchCheckUtxosSpent pda H conn ?upd")
       (simp_all add: decryptCachedOutputs_def Let_def)
  from keep_unspent_mem [of u ?upd sp] u res obtain i where
    i: "i < length cands" "u = ?upd ! i" "\<not> truthy_at sp i" by auto
  have ci: "cands ! i \<in> set cands" using i(1) by simp
  with collect_candidates_subset [OF c] have d: "\<exists>eo\<in>set outs. dec eo = Some (cands ! i)" by auto
  have ui: "u = update_index H relayer (cands ! i)" using i by simp
  have "\<not> is_spent pda H conn u"
    using i batchCheckUtxosSpent_Inr [OF sp] by (simp add: truthy_at_def)
  with d ui show ?thesis by blast
qed

lemma non_zero_subset: "non_zero xs = Inr ys \<Longrightarrow> set ys \<subseteq> set xs"
proof (induction xs arbitrary: ys)
  case Nil
  then show ?case by simp
next
  case (Cons x xs)
  obtain k u where x: "x = (k, u)" by (cases x)
  from Cons.prems x obtain more where "non_zero xs = Inr more"
    and "set ys \<subseteq> insert (k, u) (set more)"
    by (cases "bn_toNumber (amount u)"; cases "non_zero xs") (auto simp: bindE_def split: if_splits)
  with Cons.IH [of more] x show ?case by auto
qed

lemma push_valid_subset:
  "push_valid outs entries valid seen = (valid', seen') \<Longrightarrow>
     set valid' \<subseteq> set valid \<union> {u. \<exists>k. ((k, u), False) \<in> set entries}"
proof (induction entries arbitrary: valid seen)
  case Nil
  then show ?case by simp
next
  case (Cons e entries)
  obtain k u sp where e: "e = ((k, u), sp)" by (cases e) auto
  from Cons.prems e
  consider "sp" "push_valid outs entries valid seen = (valid', seen')"
    | "\<not> sp" "push_valid outs entries valid seen = (valid', seen')"
    | "\<not> sp" "\<exists>s. push_valid outs entries (valid @ [u]) s = (valid', seen')"
    by (auto split: if_splits)
  then show ?case
  proof cases
    case 1
    from Cons.IH [OF 1(2)] e show ?thesis by auto
  next
    case 2
    from Cons.IH [OF 2(2)] e show ?thesis by auto
  next
    case 3
    then obtain s where "push_valid outs entries (valid @ [u]) s = (valid', seen')" by blast
    from Cons.IH [OF this] e 3(1) show ?thesis by auto
  qed
qed

lemma fetched_utxos_mem:
  "u \<in> set (fetched_utxos dec fetched) \<Longrightarrow> \<exists>eo\<in>set (encryptedOutputs fetched). dec eo = Some u"
  by (auto simp: fetched_utxos_def List.map_filter_def)

lemma enumerate_mem: "(k, u) \<in> set (enumerate n xs) \<Longrightarrow> u \<in> set xs"
  by (auto simp: in_set_enumerate_eq)

lemma entries_mem:
  "((k, v), False) \<in> set (map (\<lambda>i. (upd ! i, truthy_at sp i)) [0..<length upd]) \<Longrightarrow>
     \<exists>i<length upd. upd ! i = (k, v) \<and> \<not> truthy_at sp i"
  by auto

lemma loadUtxos_step:
  assumes "non_zero (enumerate 0 (fetched_utxos dec fetched)) = Inr nz"
    and "upd = map (\<lambda>(k, u). (k, update_index H relayer u)) nz"
    and "batchCheckUtxosSpent pda H conn (map snd upd) = Inr sp"
    and "push_valid (encryptedOutputs fetched)
           (map (\<lambda>i. (upd ! i, truthy_at sp i)) [0..<length upd]) valid seen = (valid', seen')"
  shows "loadUtxos dec H relayer pda conn (fetched # rest) valid seen =
     (if \<not> hashMore fetched then Inr valid' else loadUtxos dec H relayer pda conn rest valid' seen')"
proof -
  have "loadUtxos dec H relayer pda conn (fetched # rest) valid seen =
     bindE (batchCheckUtxosSpent pda H conn (map snd upd)) (\<lambda>spentStatuses.
       let (valid', seen') = push_valid (encryptedOutputs fetched)
           (map (\<lambda>i. (upd ! i, truthy_at spentStatuses i)) [0..<length upd]) valid seen
       in if \<not> hashMore fetched then Inr valid'
          else loadUtxos dec H relayer pda conn rest valid' seen')"
    unfolding loadUtxos.simps assms(1) bindE_Inr Let_def assms(2) ..
  then show ?thesis unfolding assms(3) bindE_Inr Let_def assms(4) by simp
qed

lemma batch_new_notes:
  assumes nz: "non_zero (enumerate 0 (fetched_utxos dec fetched)) = Inr nz"
    and upd: "upd = map (\<lambda>(k, u). (k, update_index H relayer u)) nz"
    and sp: "batchCheckUtxosSpent pda H conn (map snd upd) = Inr sp"
    and pv: "push_valid (encryptedOutputs fetched)
           (map (\<lambda>i. (upd ! i, truthy_at sp i)) [0..<length upd]) valid seen = (valid', seen')"
    and v: "v \<in> set valid'" "v \<notin> set valid"
  shows "\<exists>c. (\<exists>eo\<in>set (encryptedOutputs fetched). dec eo = Some c)
        \<and> v = update_index H relayer c \<and> \<not> is_spent pda H conn v"
proof -
  from push_valid_subset [OF pv] v obtain k where
    "((k, v), False) \<in> set (map (\<lambda>i. (upd ! i, truthy_at sp i)) [0..<length upd])" by blast
  from entries_mem [OF this] obtain i where
    i: "i < length upd" "upd ! i = (k, v)" "\<not> truthy_at sp i" by blast
  have len: "length upd = length nz" by (simp add: upd)
  obtain k' c where kc: "nz ! i = (k', c)" by (cases "nz ! i")
  have "upd ! i = (k', update_index H relayer c)" using i(1) len kc by (simp add: upd)
  with i(2) have vc: "v = update_index H relayer c" by simp
  have "nz ! i \<in> set nz" using i(1) len by simp
  with non_zero_subset [OF nz] kc have "(k', c) \<in> set (enumerate 0 (fetched_utxos dec fetched))"
    by auto
  then have "c \<in> set (fetched_utxos dec fetched)" by (rule enumerate_mem)
  then have d: "\<exists>eo\<in>set (encryptedOutputs fetched). dec eo = Some c" by (rule fetched_utxos_mem)
  have e: "sp = map (is_spent pda H conn) (map snd upd)"
    by (rule batchCheckUtxosSpent_Inr [OF sp])
  have "sp ! i = is_spent pda H conn (snd (upd ! i))" using i(1) by (simp add: e)
  moreover have "i < length sp" using i(1) by (simp add: e)
  ultimately have "\<not> is_spent pda H conn v" using i(2,3) by (simp add: truthy_at_def)
  with d vc show ?thesis by blast
qed

lemma loadUtxos_result:
  assumes "loadUtxos dec H relayer pda conn batches valid seen = Inr res" and "u \<in> set res"
  shows "u \<in> set valid \<or>
     (\<exists>c. (\<exists>b\<in>set batches. \<exists>eo\<in>set (encryptedOutputs b). dec eo = Some c)
        \<and> u = update_index H relayer c \<and> \<not> is_spent pda H conn u)"
  using assms
proof (induction batches arbitrary: valid seen)
  case Nil
  then show ?case by simp
next
  case (Cons fetched rest)
  from Cons.prems(1) obtain nz where nz: "non_zero (enumerate 0 (fetched_utxos dec fetched)) = Inr nz"
    by (cases "non_zero (enumerate 0 (fetched_utxos dec fetched))") simp_all
  define upd where "upd = map (\<lambda>(k, u). (k, update_index H relayer u)) nz"
  have "loadUtxos dec H relayer pda conn (fetched # rest) valid seen = Inl e"
    if "batchCheckUtxosSpent pda H conn (map snd upd) = Inl e" for e
    unfolding loadUtxos.simps nz bindE_Inr Let_def upd_def [symmetric] that by simp
  with Cons.prems(1) obtain sp where sp: "batchCheckUtxosSpent pda H conn (map snd upd) = Inr sp"
    by (cases "batchCheckUtxosSpent pda H conn (map snd upd)") auto
  obtain valid' seen' where pv:
    "push_valid (encryptedOutputs fetched)
       (map (\<lambda>i. (upd ! i, truthy_at sp i)) [0..<length upd]) valid seen = (valid', seen')"
    by (rule prod.exhaust)
  note step = loadUtxos_step [OF nz upd_def sp pv, of rest]
  note new = batch_new_notes [OF nz upd_def sp pv]
  show ?case
  proof (cases "u \<in> set valid")
    case True
    then show ?thesis by blast
  next
    case nv: False
    show ?thesis
    proof (cases "u \<in> set valid'")
      case True
      from new [OF True nv] show ?thesis by auto
    next
      case False
      have hm: "hashMore fetched"
      proof (rule ccontr)
        assume "\<not> hashMore fetched"
        with step Cons.prems(1) have "res = valid'" by simp
        with Cons.prems(2) False show False by simp
      qed
      with step Cons.prems(1) have r: "loadUtxos dec H relayer pda conn rest valid' seen' = Inr res"
        by simp
      from Cons.IH [OF r Cons.prems(2)] False show ?thesis by auto
    qed
  qed
qed

lemma getMyUtxos_result:
  assumes "getMyUtxos dec H relayer pda conn src = Inr res" and "u \<in> set res"
  shows "\<exists>c. (\<exists>eo\<in>set (scanned_outputs src). dec eo = Some c)
        \<and> u = update_index H relayer c \<and> \<not> is_spent pda H conn u"
proof (cases src)
  case (Cached outs)
  with assms have "decryptCachedOutputs dec H relayer pda conn outs = Inr res"
    by (simp add: getMyUtxos_def)
  from cached_result [OF this assms(2)] Cached show ?thesis
    by (simp add: scanned_outputs_def)
next
  case (Fresh batches)
  with assms have "loadUtxos dec H relayer pda conn batches [] [] = Inr res"
    by (simp add: getMyUtxos_def)
  from loadUtxos_result [OF this assms(2)] Fresh show ?thesis
    by (simp add: scanned_outputs_def)
qed

lemma candidates_c1: "collect_candidates dec_A [''c1''] [] [] = Inr [note_10M]"
  by (simp add: dec_A_def note_10M_def new_Utxo_def bn_toNumber_def bindE_def)

lemma proofs_down_reply: "proofs_down c = FetchThrows"
  by (simp add: proofs_down_def service_reply_def)

lemma proofs_up_reply: "proofs_up c = OkIndex 9"
  by (simp add: proofs_up_def service_reply_def)

lemma keep_unspent_one: "keep_unspent [u] [b] = (if b then [] else [u])"
  by (simp add: keep_unspent_def truthy_at_def)

lemma spent_unspent_chain: "batchCheckUtxosSpent pda H chain_unspent [u] = Inr [False]"
  using batchCheckUtxosSpent_ok [of chain_unspent pda H "[u]"]
  by (simp add: chain_unspent_def is_spent_def)


lemma spent_rpc_down: "batchCheckUtxosSpent pda H chain_spent_rpc_down [u] = Inl TypeError"
  using batchCheckUtxosSpent_throws [of chain_spent_rpc_down "[u]" pda H]
  by (simp add: chain_spent_rpc_down_def)

lemma cached_scan_c1:
  assumes "batchCheckUtxosSpent pda H conn [update_index H relayer note_10M] = Inr [b]"
  shows "getMyUtxos dec_A H relayer pda conn (Cached [''c1'']) =
     Inr (if b then [] else [update_index H relayer note_10M])"
  by (simp add: getMyUtxos_def decryptCachedOutputs_def candidates_c1 assms keep_unspent_one
      Let_def del: collect_candidates.simps)

lemma cached_scan_c1_fails:
  assumes "batchCheckUtxosSpent pda H conn [update_index H relayer note_10M] = Inl e"
  shows "getMyUtxos dec_A H relayer pda conn (Cached [''c1'']) = Inl e"
  by (simp add: getMyUtxos_def decryptCachedOutputs_def candidates_c1 assms Let_def
      del: collect_candidates.simps)

lemma non_zero_c1: "non_zero (enumerate 0 (fetched_utxos dec_A (hd one_range))) = Inr [(0, note_10M)]"
  by (simp add: one_range_def fetched_utxos_def List.map_filter_def dec_A_def note_10M_def
      new_Utxo_def bn_toNumber_def bindE_def)

lemma fresh_scan_c1:
  assumes "batchCheckUtxosSpent pda H conn [update_index H relayer note_10M] = Inr [b]"
  shows "getMyUtxos dec_A H relayer pda conn (Fresh one_range) =
     Inr (if b then [] else [update_index H relayer note_10M])"
proof -
  have r: "one_range = [hd one_range]" and h: "\<not> hashMore (hd one_range)"
    and e: "encryptedOutputs (hd one_range) = [''c1'']"
    by (simp_all add: one_range_def)
  have "loadUtxos dec_A H relayer pda conn [hd one_range] [] [] =
     Inr (if b then [] else [update_index H relayer note_10M])"
    by (simp add: non_zero_c1 assms truthy_at_def h e)
  with r show ?thesis by (simp add: getMyUtxos_def)
qed

lemma fresh_scan_c1_fails:
  assumes "batchCheckUtxosSpent pda H conn [update_index H relayer note_10M] = Inl e"
  shows "getMyUtxos dec_A H relayer pda conn (Fresh one_range) = Inl e"
proof -
  have r: "one_range = [hd one_range]" by (simp add: one_range_def)
  have "loadUtxos dec_A H relayer pda conn [hd one_range] [] [] = Inl e"
    by (simp add: non_zero_c1 assms)
  with r show ?thesis by (simp add: getMyUtxos_def)
qed

lemma update_down: "update_index H proofs_down u = u"
  by (simp add: update_index_def proofs_down_reply)

lemma update_up: "update_index H proofs_up u = u\<lparr>index := 9\<rparr>"
  by (simp add: update_index_def proofs_up_reply)

lemma chain_unspent_simps: "accounts chain_unspent a = False" "rpc_throws chain_unspent b = False"
  by (simp_all add: chain_unspent_def)

lemma chain_spent_simps: "accounts chain_spent a = True" "rpc_throws chain_spent b = False"
  by (simp_all add: chain_spent_def)

lemma chain_spent_rpc_down_simps:
  "accounts chain_spent_rpc_down a = True" "rpc_throws chain_spent_rpc_down b = True"
  by (simp_all add: chain_spent_rpc_down_def)

lemma index_note_10M: "index note_10M = 3"
  by (simp add: note_10M_def new_Utxo_def)

text \<open>
  C3 (as the code has it). Every note a scan returns, on the cached path and on the fresh
  path, was decrypted from one of the scanned outputs; when the inclusion-proof service
  answers the request for the note's commitment with an index, the note's index is that
  index; when the request throws or the response is not ok, the returned note is as it
  was decrypted, with the index stored in its ciphertext.
\<close>

theorem scan_index_from_proof_reply:
  assumes "getMyUtxos dec H relayer pda conn src = Inr res" and "u \<in> set res"
  shows "(\<forall>i. relayer (getCommitment H u) = OkIndex i \<longrightarrow> index u = i)
     \<and> ((relayer (getCommitment H u) = FetchThrows \<or> relayer (getCommitment H u) = NotOk)
          \<longrightarrow> (\<exists>eo\<in>set (scanned_outputs src). dec eo = Some u))"
proof -
  from getMyUtxos_result [OF assms] obtain c eo where
    eo: "eo \<in> set (scanned_outputs src)" "dec eo = Some c" and u: "u = update_index H relayer c"
    by blast
  have a: "index u = i" if "relayer (getCommitment H u) = OkIndex i" for i
    using that unfolding u by (rule update_index_reported)
  have gc: "getCommitment H u = getCommitment H c"
    unfolding u by (rule getCommitment_update_index)
  have "u = c" if "relayer (getCommitment H u) = FetchThrows \<or> relayer (getCommitment H u) = NotOk"
    using that unfolding gc by (auto simp: u update_index_def)
  with eo a show ?thesis by blast
qed

theorem scan_index_from_proof_reply_witness:
  "getMyUtxos dec_A H_A proofs_up pda_A chain_unspent (Cached [''c1'']) = Inr [note_10M\<lparr>index := 9\<rparr>]
   \<and> proofs_up (getCommitment H_A (note_10M\<lparr>index := 9\<rparr>)) = OkIndex 9
   \<and> index (note_10M\<lparr>index := 9\<rparr>) = 9"
  using scan_index_from_proof_reply [of dec_A H_A proofs_up pda_A chain_unspent "Cached [''c1'']"
      "[note_10M\<lparr>index := 9\<rparr>]" "note_10M\<lparr>index := 9\<rparr>"]
  by (simp add: cached_scan_c1 [OF spent_unspent_chain] update_up proofs_up_reply)

text \<open>
  C3 as stated fails when the request for the inclusion proof fails: the tree holds the
  note at leaf 9, the request throws, and both scans return the note with the index 3 of
  its ciphertext.
\<close>

theorem scan_keeps_decrypted_index_when_proof_fetch_fails:
  "getMyUtxos dec_A H_A proofs_down pda_A chain_unspent (Cached [''c1'']) = Inr [note_10M]
   \<and> getMyUtxos dec_A H_A proofs_down pda_A chain_unspent (Fresh one_range) = Inr [note_10M]
   \<and> index note_10M = 3
   \<and> proofs_down (getCommitment H_A note_10M) = FetchThrows"
  by (simp add: cached_scan_c1 [OF spent_unspent_chain] fresh_scan_c1 [OF spent_unspent_chain]
      update_down index_note_10M proofs_down_reply)

text \<open>
  When the account lookup throws there is no list: the spent check throws, and so does
  the scan, on both paths.
\<close>

lemma scan_fails_when_lookup_throws:
  "getMyUtxos dec_A H_A proofs_up pda_A chain_spent_rpc_down (Cached [''c1'']) = Inl TypeError
   \<and> getMyUtxos dec_A H_A proofs_up pda_A chain_spent_rpc_down (Fresh one_range) = Inl TypeError"
  by (simp add: cached_scan_c1_fails [OF spent_rpc_down] fresh_scan_c1_fails [OF spent_rpc_down])








subsection \<open>Retrying a withdrawal\<close>

lemma lock_message_class:
  "\<not> isRootMismatch LOCKS_NOT_ACQUIRED" "\<not> isNullifierAlreadyUsed LOCKS_NOT_ACQUIRED"
  "\<not> isInsufficientFunds LOCKS_NOT_ACQUIRED"
  by (simp_all add: LOCKS_NOT_ACQUIRED_def isRootMismatch_def isNullifierAlreadyUsed_def
      isInsufficientFunds_def toLowerCase_def char_of_def bit_Suc_0_iff)

lemma root_message_class:
  "isRootMismatch ROOT_VERIFICATION_FAILED" "\<not> isNullifierAlreadyUsed ROOT_VERIFICATION_FAILED"
  "\<not> isInsufficientFunds ROOT_VERIFICATION_FAILED"
  by (simp_all add: ROOT_VERIFICATION_FAILED_def isRootMismatch_def isNullifierAlreadyUsed_def
      isInsufficientFunds_def toLowerCase_def char_of_def bit_Suc_0_iff)

lemma restarts_keep_count_append:
  assumes "restarts_keep_count xs" and "restarts_keep_count ys"
    and "xs \<noteq> [] \<Longrightarrow> snd (last xs) \<noteq> RootChanged"
  shows "restarts_keep_count (xs @ ys)"
  using assms
proof (induction xs)
  case Nil
  then show ?case by simp
next
  case (Cons x xs)
  note IH = Cons.IH and prems = Cons.prems
  obtain c a where x: "x = (c, a)" by (cases x)
  show ?case
  proof (cases xs)
    case Nil
    with prems x show ?thesis by (cases ys) auto
  next
    case (Cons y zs)
    obtain c' a' where y: "y = (c', a')" by (cases y)
    from prems x y Cons have "restarts_keep_count xs" and "snd (last xs) \<noteq> RootChanged"
      by auto
    with IH prems(2) have "restarts_keep_count (xs @ ys)" by simp
    with prems(1) x y Cons show ?thesis by simp
  qed
qed

lemma restarts_keep_count_Cons:
  assumes "restarts_keep_count tr" and "tr \<noteq> []" and "a = RootChanged \<Longrightarrow> fst (hd tr) = c"
  shows "restarts_keep_count ((c, a) # tr)"
  using assms by (cases tr) auto

lemma catch_block_cases:
  assumes "catch_block maxRetries retryCount e tr n retry = Some (res, tr', n')"
  shows "(retryCount < maxRetries \<and> (\<exists>tr2. retry = Some (res, tr2, n') \<and> tr' = tr @ tr2))
     \<or> (tr' = tr \<and> n' = n \<and> (\<exists>m. res = Failed m))"
  using assms by (auto simp: catch_block_def and_then_def split: if_splits option.splits)

lemma withdraw_run_trace:
  assumes "withdraw_run fuel env maxRetries retryCount n = Some (res, tr, n')"
  shows "tr \<noteq> [] \<and> fst (hd tr) = retryCount \<and> snd (last tr) \<noteq> RootChanged
     \<and> restarts_keep_count tr
     \<and> (\<forall>(c, a)\<in>set tr. retryCount \<le> c \<and> c \<le> max maxRetries retryCount)"
  using assms
proof (induction fuel arbitrary: retryCount n res tr n')
  case 0
  then show ?case by simp
next
  case (Suc fuel)
  have ext: "tr1 @ tr2 \<noteq> [] \<and> fst (hd (tr1 @ tr2)) = retryCount
       \<and> snd (last (tr1 @ tr2)) \<noteq> RootChanged \<and> restarts_keep_count (tr1 @ tr2)
       \<and> (\<forall>(c, a)\<in>set (tr1 @ tr2). retryCount \<le> c \<and> c \<le> max maxRetries retryCount)"
    if a: "tr1 \<noteq> []" "fst (hd tr1) = retryCount" "snd (last tr1) \<noteq> RootChanged"
      "restarts_keep_count tr1"
      "\<forall>(c, a)\<in>set tr1. retryCount \<le> c \<and> c \<le> max maxRetries retryCount"
      and lt: "retryCount < maxRetries"
      and r: "withdraw_run fuel env maxRetries (Suc retryCount) m = Some (res, tr2, n')"
    for tr1 tr2 m
  proof -
    from Suc.IH [OF r] have b: "tr2 \<noteq> []" "snd (last tr2) \<noteq> RootChanged"
      "restarts_keep_count tr2"
      "\<forall>(c, a)\<in>set tr2. Suc retryCount \<le> c \<and> c \<le> max maxRetries (Suc retryCount)"
      by simp_all
    have "restarts_keep_count (tr1 @ tr2)"
      using a(4) b(3) a(3) by (rule restarts_keep_count_append)
    moreover have "\<forall>(c, a)\<in>set tr2. retryCount \<le> c \<and> c \<le> max maxRetries retryCount"
      using b(4) lt by (auto simp: max_def split: if_splits)
    ultimately show ?thesis using a b by auto
  qed
  show ?case
  proof (cases "env n")
    case Succeeds
    with Suc.prems show ?thesis by auto
  next
    case (Throws e)
    with Suc.prems have "catch_block maxRetries retryCount e [(retryCount, Throws e)] (Suc n)
        (withdraw_run fuel env maxRetries (Suc retryCount) (Suc n)) = Some (res, tr, n')"
      by simp
    from catch_block_cases [OF this] show ?thesis
    proof
      assume "retryCount < maxRetries \<and> (\<exists>tr2. withdraw_run fuel env maxRetries (Suc retryCount) (Suc n)
          = Some (res, tr2, n') \<and> tr = [(retryCount, Throws e)] @ tr2)"
      then obtain tr2 where lt: "retryCount < maxRetries"
        and r: "withdraw_run fuel env maxRetries (Suc retryCount) (Suc n) = Some (res, tr2, n')"
        and t: "tr = [(retryCount, Throws e)] @ tr2" by blast
      show ?thesis unfolding t by (rule ext [OF _ _ _ _ _ lt r]) simp_all
    next
      assume "tr = [(retryCount, Throws e)] \<and> n' = Suc n \<and> (\<exists>m. res = Failed m)"
      then show ?thesis by simp
    qed
  next
    case RootChanged
    with Suc.prems obtain r1 tr1 n1 where
      inner: "withdraw_run fuel env maxRetries retryCount (Suc n) = Some (r1, tr1, n1)"
      by (cases "withdraw_run fuel env maxRetries retryCount (Suc n)") auto
    from Suc.IH [OF inner] have i: "tr1 \<noteq> []" "fst (hd tr1) = retryCount"
      "snd (last tr1) \<noteq> RootChanged" "restarts_keep_count tr1"
      "\<forall>(c, a)\<in>set tr1. retryCount \<le> c \<and> c \<le> max maxRetries retryCount"
      by simp_all
    let ?tr1 = "(retryCount, RootChanged) # tr1"
    have k: "restarts_keep_count ?tr1"
      using i(4) i(1) i(2) by (rule restarts_keep_count_Cons)
    have j: "?tr1 \<noteq> []" "fst (hd ?tr1) = retryCount" "snd (last ?tr1) \<noteq> RootChanged"
      "\<forall>(c, a)\<in>set ?tr1. retryCount \<le> c \<and> c \<le> max maxRetries retryCount"
      using i by simp_all
    show ?thesis
    proof (cases r1)
      case Done
      with Suc.prems RootChanged inner have "tr = ?tr1" by simp
      with j k show ?thesis by simp
    next
      case (Failed e)
      with Suc.prems RootChanged inner have
        "catch_block maxRetries retryCount ROOT_VERIFICATION_FAILED ?tr1 n1
           (withdraw_run fuel env maxRetries (Suc retryCount) n1) = Some (res, tr, n')"
        by simp
      from catch_block_cases [OF this] show ?thesis
      proof
        assume "retryCount < maxRetries \<and> (\<exists>tr2. withdraw_run fuel env maxRetries (Suc retryCount) n1
            = Some (res, tr2, n') \<and> tr = ?tr1 @ tr2)"
        then obtain tr2 where lt: "retryCount < maxRetries"
          and r: "withdraw_run fuel env maxRetries (Suc retryCount) n1 = Some (res, tr2, n')"
          and t: "tr = ?tr1 @ tr2" by blast
        show ?thesis unfolding t by (rule ext [OF j(1) j(2) j(3) k j(4) lt r])
      next
        assume "tr = ?tr1 \<and> n' = n1 \<and> (\<exists>m. res = Failed m)"
        with j k show ?thesis by simp
      qed
    qed
  qed
qed

lemma root_changes_then_success:
  "withdraw_run (Suc k) (\<lambda>i. if i < n + k then RootChanged else Succeeds) maxRetries retryCount n
     = Some (Done, replicate k (retryCount, RootChanged) @ [(retryCount, Succeeds)], Suc (n + k))"
proof (induction k arbitrary: n)
  case 0
  then show ?case by simp
next
  case (Suc k)
  have "withdraw_run (Suc k) (\<lambda>i. if i < n + Suc k then RootChanged else Succeeds)
      maxRetries retryCount (Suc n)
     = Some (Done, replicate k (retryCount, RootChanged) @ [(retryCount, Succeeds)], Suc (Suc n + k))"
    using Suc [of "Suc n"] by simp
  then show ?case by (subst withdraw_run.simps) simp
qed

lemma root_always_changes:
  "withdraw_run fuel (\<lambda>i. RootChanged) maxRetries retryCount n = None"
  by (induction fuel arbitrary: n) simp_all

lemma withdraw_run_numeral:
  "withdraw_run (numeral k) env maxRetries retryCount n =
     (case env n of
        Succeeds \<Rightarrow> Some (Done, [(retryCount, Succeeds)], Suc n)
      | Throws errorString \<Rightarrow>
          catch_block maxRetries retryCount errorString [(retryCount, Throws errorString)] (Suc n)
            (withdraw_run (pred_numeral k) env maxRetries (Suc retryCount) (Suc n))
      | RootChanged \<Rightarrow>
          (case withdraw_run (pred_numeral k) env maxRetries retryCount (Suc n) of
             None \<Rightarrow> None
           | Some (Done, tr, n') \<Rightarrow> Some (Done, (retryCount, RootChanged) # tr, n')
           | Some (Failed e, tr, n') \<Rightarrow>
               catch_block maxRetries retryCount ROOT_VERIFICATION_FAILED
                 ((retryCount, RootChanged) # tr) n'
                 (withdraw_run (pred_numeral k) env maxRetries (Suc retryCount) n')))"
proof -
  have eq: "(numeral k :: nat) = Suc (pred_numeral k)" by (rule numeral_eq_Suc)
  show ?thesis by (simp only: eq withdraw_run.simps)
qed

lemma catch_block_cong:
  "maxRetries = maxRetries' \<Longrightarrow> retryCount = retryCount' \<Longrightarrow> e = e' \<Longrightarrow> tr = tr' \<Longrightarrow> n = n' \<Longrightarrow>
     catch_block maxRetries retryCount e tr n retry = catch_block maxRetries' retryCount' e' tr' n' retry"
  by simp

lemma lock_failure_retry:
  "catch_block maxRetries retryCount LOCKS_NOT_ACQUIRED tr n retry =
     (if retryCount < maxRetries then and_then tr retry else Some (Failed LOCKS_NOT_ACQUIRED, tr, n))"
  by (simp add: catch_block_def lock_message_class)

lemma root_failure_retry:
  "catch_block maxRetries retryCount ROOT_VERIFICATION_FAILED tr n retry =
     (if retryCount < maxRetries then and_then tr retry
      else Some (Failed ROOT_VERIFICATION_FAILED, tr, n))"
  by (simp add: catch_block_def root_message_class)

lemma throw_then_retry:
  assumes "env n = Throws e" and "retryCount < maxRetries"
    and "isRootMismatch e \<or> (\<not> isNullifierAlreadyUsed e \<and> \<not> isInsufficientFunds e)"
  shows "withdraw_run (Suc fuel) env maxRetries retryCount n =
     and_then [(retryCount, Throws e)] (withdraw_run fuel env maxRetries (Suc retryCount) (Suc n))"
  using assms by (auto simp: catch_block_def)

lemma failed_restart_then_retry:
  assumes "env n = RootChanged"
    and "withdraw_run fuel env maxRetries retryCount (Suc n) = Some (Failed e, tr, n1)"
    and "retryCount < maxRetries"
  shows "withdraw_run (Suc fuel) env maxRetries retryCount n =
     and_then ((retryCount, RootChanged) # tr) (withdraw_run fuel env maxRetries (Suc retryCount) n1)"
  using assms by (simp add: root_failure_retry)

lemma throw_then_give_up:
  assumes "env n = Throws e" and "\<not> retryCount < maxRetries"
  shows "\<exists>m. withdraw_run (Suc fuel) env maxRetries retryCount n =
     Some (Failed m, [(retryCount, Throws e)], Suc n)"
  using assms by (simp add: catch_block_def)

text \<open>
  C7 (as the code has it). In every run of \<^verbatim>\<open>withdraw\<close> that returns, the attempt made
  after a changed root runs with the same retry count as the attempt that saw the change,
  and no attempt runs with a count above the larger of \<^verbatim>\<open>maxRetries\<close> and the initial
  count. The number of restarts after a changed root is not bounded: when the root
  changes \<open>k\<close> times and then stays, the run makes \<open>k\<close> restarts, all with the initial
  count, and goes through; when the root changes at every attempt, the run does not
  return, whatever the depth of the recursion. The count goes up in the \<^verbatim>\<open>catch\<close> block
  only: when an attempt throws an error that is a root mismatch, or is neither a used
  nullifier nor insufficient funds, and the count is below \<^verbatim>\<open>maxRetries\<close>, the run goes on
  as the run with the count plus one; so does a run whose restart after a changed root
  failed; an attempt that throws with the count at \<^verbatim>\<open>maxRetries\<close> fails the run.
\<close>

theorem root_change_restart_keeps_retry_count:
  "(withdraw_run fuel env maxRetries retryCount n = Some (res, tr, n') \<longrightarrow>
      restarts_keep_count tr
      \<and> (\<forall>(c, a)\<in>set tr. retryCount \<le> c \<and> c \<le> max maxRetries retryCount))
   \<and> withdraw_run (Suc k) (\<lambda>i. if i < k then RootChanged else Succeeds) maxRetries retryCount 0
       = Some (Done, replicate k (retryCount, RootChanged) @ [(retryCount, Succeeds)], Suc k)
   \<and> withdraw_run fuel (\<lambda>i. RootChanged) maxRetries retryCount n = None
   \<and> (env n = Throws e \<and> retryCount < maxRetries
        \<and> (isRootMismatch e \<or> (\<not> isNullifierAlreadyUsed e \<and> \<not> isInsufficientFunds e)) \<longrightarrow>
      withdraw_run (Suc fuel) env maxRetries retryCount n =
        and_then [(retryCount, Throws e)]
          (withdraw_run fuel env maxRetries (Suc retryCount) (Suc n)))
   \<and> (env n = RootChanged \<and> retryCount < maxRetries
        \<and> withdraw_run fuel env maxRetries retryCount (Suc n) = Some (Failed e, tr1, n1) \<longrightarrow>
      withdraw_run (Suc fuel) env maxRetries retryCount n =
        and_then ((retryCount, RootChanged) # tr1)
          (withdraw_run fuel env maxRetries (Suc retryCount) n1))
   \<and> (env n = Throws e \<and> \<not> retryCount < maxRetries \<longrightarrow>
      (\<exists>m. withdraw_run (Suc fuel) env maxRetries retryCount n =
        Some (Failed m, [(retryCount, Throws e)], Suc n)))"
proof (intro conjI impI)
  assume r: "withdraw_run fuel env maxRetries retryCount n = Some (res, tr, n')"
  from withdraw_run_trace [OF r] show "restarts_keep_count tr" by blast
  from withdraw_run_trace [OF r]
  show "\<forall>(c, a)\<in>set tr. retryCount \<le> c \<and> c \<le> max maxRetries retryCount" by blast
next
  show "withdraw_run (Suc k) (\<lambda>i. if i < k then RootChanged else Succeeds) maxRetries retryCount 0
       = Some (Done, replicate k (retryCount, RootChanged) @ [(retryCount, Succeeds)], Suc k)"
    using root_changes_then_success [of k 0 maxRetries retryCount] by simp
next
  show "withdraw_run fuel (\<lambda>i. RootChanged) maxRetries retryCount n = None"
    by (rule root_always_changes)
next
  assume "env n = Throws e \<and> retryCount < maxRetries
        \<and> (isRootMismatch e \<or> (\<not> isNullifierAlreadyUsed e \<and> \<not> isInsufficientFunds e))"
  then show "withdraw_run (Suc fuel) env maxRetries retryCount n =
        and_then [(retryCount, Throws e)]
          (withdraw_run fuel env maxRetries (Suc retryCount) (Suc n))"
    by (intro throw_then_retry) simp_all
next
  assume "env n = RootChanged \<and> retryCount < maxRetries
        \<and> withdraw_run fuel env maxRetries retryCount (Suc n) = Some (Failed e, tr1, n1)"
  then show "withdraw_run (Suc fuel) env maxRetries retryCount n =
        and_then ((retryCount, RootChanged) # tr1)
          (withdraw_run fuel env maxRetries (Suc retryCount) n1)"
    by (intro failed_restart_then_retry [where e = e]) simp_all
next
  assume "env n = Throws e \<and> \<not> retryCount < maxRetries"
  then show "\<exists>m. withdraw_run (Suc fuel) env maxRetries retryCount n =
        Some (Failed m, [(retryCount, Throws e)], Suc n)"
    by (intro throw_then_give_up) simp_all
qed

theorem root_change_restart_keeps_retry_count_witness:
  "withdraw_run 5 (script [RootChanged, Throws LOCKS_NOT_ACQUIRED]) 3 0 0
     = Some (Done, [(0, RootChanged), (0, Throws LOCKS_NOT_ACQUIRED), (1, Succeeds)], 3)
   \<and> restarts_keep_count [(0, RootChanged), (0, Throws LOCKS_NOT_ACQUIRED), (1, Succeeds)]
   \<and> root_race_restarts [(0, RootChanged), (0, Throws LOCKS_NOT_ACQUIRED), (1, Succeeds)] = 1
   \<and> script [RootChanged, Throws LOCKS_NOT_ACQUIRED] 1 = Throws LOCKS_NOT_ACQUIRED
   \<and> withdraw_run 4 (script [RootChanged, Throws LOCKS_NOT_ACQUIRED]) 3 0 1
     = and_then [(0, Throws LOCKS_NOT_ACQUIRED)]
         (withdraw_run 3 (script [RootChanged, Throws LOCKS_NOT_ACQUIRED]) 3 1 2)
   \<and> withdraw_run 3 (script [RootChanged, Throws LOCKS_NOT_ACQUIRED]) 3 1 2
     = Some (Done, [(1, Succeeds)], 3)"
  using root_change_restart_keeps_retry_count
    [of 5 "script [RootChanged, Throws LOCKS_NOT_ACQUIRED]" 3 0 0 Done
      "[(0, RootChanged), (0, Throws LOCKS_NOT_ACQUIRED), (1, Succeeds)]" 3]
    root_change_restart_keeps_retry_count
    [of 3 "script [RootChanged, Throws LOCKS_NOT_ACQUIRED]" 3 0 1 _ _ _ _ LOCKS_NOT_ACQUIRED]
  by (simp add: withdraw_run_numeral script_def lock_failure_retry root_failure_retry and_then_def
      root_race_restarts_def lock_message_class del: withdraw_run.simps
      cong: option.case_cong_weak attempt.case_cong_weak catch_block_cong)

theorem root_race_restarts_exceed_max_retries:
  "withdraw_run 9 (script [RootChanged, RootChanged, RootChanged, RootChanged]) 3 0 0
     = Some (Done, [(0, RootChanged), (0, RootChanged), (0, RootChanged), (0, RootChanged),
                    (0, Succeeds)], 5)
   \<and> root_race_restarts [(0, RootChanged), (0, RootChanged), (0, RootChanged), (0, RootChanged),
                    (0, Succeeds)] = 4
   \<and> withdraw_run 9
       (script [RootChanged, Throws LOCKS_NOT_ACQUIRED, RootChanged, Throws LOCKS_NOT_ACQUIRED,
                RootChanged, Throws LOCKS_NOT_ACQUIRED, RootChanged, Throws LOCKS_NOT_ACQUIRED]) 3 0 0
     = Some (Done, [(0, RootChanged), (0, Throws LOCKS_NOT_ACQUIRED),
                    (1, RootChanged), (1, Throws LOCKS_NOT_ACQUIRED),
                    (2, RootChanged), (2, Throws LOCKS_NOT_ACQUIRED),
                    (3, RootChanged), (3, Throws LOCKS_NOT_ACQUIRED), (3, Succeeds)], 9)"
  by (simp add: withdraw_run_numeral script_def lock_failure_retry root_failure_retry and_then_def
      root_race_restarts_def del: withdraw_run.simps
      cong: option.case_cong_weak attempt.case_cong_weak catch_block_cong)

end
